theory Spec2Isabelle
  imports Main "HOL-Library.Word"
begin

unbundle bit_operations_syntax

section \<open>The containers of ftg\_containers.h, as functions on explicit state\<close>

text \<open>
  The C code mutates structures through pointers and reports failure through return
  values. Here every function takes the structure and returns the updated one.
  Conventions of the embedding:
  \<^item> \<open>int\<close> and \<open>ftgc_hashkey_t\<close> values that are only stored and compared are HOL
    integers; the hash functions, which shift and wrap, work on \<open>32 word\<close>.
  \<^item> An allocation (\<open>FTGC_MALLOC\<close>, \<open>FTGC_REALLOC\<close>) may fail. Each function that
    allocates takes the outcome of its allocations as an argument, so both branches of
    every \<open>if (!ptr)\<close> are branches of the model.
  \<^item> \<open>FTGC__ASSERT\<close> expands to \<open>((void)0)\<close> unless \<open>FTG_ASSERT\<close> is defined. The
    function bodies follow that build: the asserted condition of a function \<open>f\<close> is the
    predicate \<open>f_pre\<close>, and it does not guard the body.
  \<^item> An access outside an array, through \<open>NULL\<close> or through a freed pointer, a
    read of bytes no one wrote, and the conversion to \<open>int\<close> of a float that no \<open>int\<close>
    holds, is undefined behaviour in C; the model returns it as an \<open>error\<close> value
    (\<open>Inl\<close>).
\<close>

datatype error =
  OutOfBounds | NullDereference | InvalidPointer | UninitializedRead | ConversionOverflow

subsection \<open>Hash index: data\<close>

definition FTGC_HASHINDEX_UNUSED :: int where
  "FTGC_HASHINDEX_UNUSED = -1"

definition FTGC_HASHINDEX_DELETED :: int where
  "FTGC_HASHINDEX_DELETED = -2"

type_synonym ftgc_hashkey_t = int

text \<open>\<open>struct ftgc__hashlink_s { int value; struct ftgc__hashlink_s *next; }\<close>: a
  node owns the node its \<open>next\<close> points to, \<open>None\<close> is \<open>NULL\<close>.\<close>

datatype ftgc__hashlink_s = Hashlink (hvalue: int) (hnext: "ftgc__hashlink_s option")

record ftgc_hashindex_s =
  table :: "int list"
  chain :: "ftgc__hashlink_s list"
  table_size :: int
  hash_mask :: int

text \<open>A pointer to a chain node is the slot of the \<open>chain\<close> array it hangs from and the
  number of \<open>next\<close> links to follow from there; \<open>None\<close> is \<open>NULL\<close>.\<close>

type_synonym nodeptr = "(nat \<times> nat) option"

record ftgc_hashindex_iter_s =
  current_node :: nodeptr
  prev_node :: nodeptr

text \<open>Reading and writing the node \<open>d\<close> links down a chain.\<close>

fun node_at :: "ftgc__hashlink_s \<Rightarrow> nat \<Rightarrow> ftgc__hashlink_s option" where
  "node_at l 0 = Some l"
| "node_at l (Suc d) = (case hnext l of None \<Rightarrow> None | Some n \<Rightarrow> node_at n d)"

fun node_update :: "(ftgc__hashlink_s \<Rightarrow> ftgc__hashlink_s) \<Rightarrow> nat \<Rightarrow> ftgc__hashlink_s \<Rightarrow> ftgc__hashlink_s" where
  "node_update f 0 l = f l"
| "node_update f (Suc d) l =
     (case hnext l of None \<Rightarrow> l | Some n \<Rightarrow> Hashlink (hvalue l) (Some (node_update f d n)))"

text \<open>The values of a chain's nodes, first node first. The last one is the value of the
  node whose \<open>next\<close> is \<open>NULL\<close>.\<close>

fun link_values :: "ftgc__hashlink_s \<Rightarrow> int list" where
  "link_values (Hashlink v None) = [v]"
| "link_values (Hashlink v (Some n)) = v # link_values n"

subsection \<open>Hash index: operations\<close>

text \<open>\<open>ftgc__pow2_roundup\<close> on \<open>ftgc_sint32\<close>; \<open>>>\<close> on a signed value is the
  arithmetic shift.\<close>

definition ftgc__pow2_roundup :: "32 word \<Rightarrow> 32 word" where
  "ftgc__pow2_roundup v0 =
     (let v = v0 - 1;
          v = v OR signed_drop_bit 1 v;
          v = v OR signed_drop_bit 2 v;
          v = v OR signed_drop_bit 4 v;
          v = v OR signed_drop_bit 8 v;
          v = v OR signed_drop_bit 16 v
      in v + 1)"

text \<open>The depth of the node whose \<open>next\<close> is \<open>NULL\<close>.\<close>

fun ftgc__get_chain_end :: "ftgc__hashlink_s \<Rightarrow> nat" where
  "ftgc__get_chain_end (Hashlink v None) = 0"
| "ftgc__get_chain_end (Hashlink v (Some n)) = Suc (ftgc__get_chain_end n)"

text \<open>The loop runs while \<open>current->next\<close>: the last node is never compared.\<close>

fun ftgc__is_value_in_chain :: "ftgc__hashlink_s \<Rightarrow> int \<Rightarrow> bool" where
  "ftgc__is_value_in_chain (Hashlink v None) value = False"
| "ftgc__is_value_in_chain (Hashlink v (Some n)) value =
     (if v = value then True else ftgc__is_value_in_chain n value)"

definition ftgc__append_node_pre :: "ftgc__hashlink_s \<Rightarrow> bool" where
  "ftgc__append_node_pre chain_end = (hnext chain_end = None)"

text \<open>\<open>malloc_ok\<close> is whether \<open>FTGC_MALLOC\<close> returned a node.\<close>

definition ftgc__append_node :: "bool \<Rightarrow> ftgc__hashlink_s \<Rightarrow> ftgc__hashlink_s" where
  "ftgc__append_node malloc_ok chain_end =
     (if \<not> malloc_ok then Hashlink (hvalue chain_end) None
      else Hashlink (hvalue chain_end) (Some (Hashlink FTGC_HASHINDEX_UNUSED None)))"

definition ftgc_hashindex_init_pre :: "int \<Rightarrow> bool" where
  "ftgc_hashindex_init_pre vert_size = (vert_size > 1)"

text \<open>Returns the C return value and the index. \<open>table_size\<close> and \<open>hash_mask\<close> are
  set before the allocations; when one of them fails the index has no storage.
  \<open>memset\<close> with the byte \<open>0xFF\<close> makes every \<open>int\<close> of the table \<open>-1\<close>.\<close>

definition ftgc_hashindex_init :: "int \<Rightarrow> bool \<Rightarrow> bool \<Rightarrow> int \<times> ftgc_hashindex_s" where
  "ftgc_hashindex_init vert_size table_ok chain_ok =
     (let ts = sint (ftgc__pow2_roundup (word_of_int vert_size));
          hm = sint ((word_of_int ts :: 32 word) - 1)
      in if \<not> table_ok then (0, \<lparr> table = [], chain = [], table_size = ts, hash_mask = hm \<rparr>)
         else if \<not> chain_ok then (0, \<lparr> table = [], chain = [], table_size = ts, hash_mask = hm \<rparr>)
         else (1, \<lparr> table = replicate (nat ts) FTGC_HASHINDEX_UNUSED,
                    chain = replicate (nat ts) (Hashlink FTGC_HASHINDEX_UNUSED None),
                    table_size = ts, hash_mask = hm \<rparr>))"

text \<open>\<open>ftgc_hashindex_add_key\<close>: the return value (0, 1 or -1) and the index after the
  call. \<open>table[key]\<close> and \<open>chain[key]\<close> are read without a range check.\<close>

definition ftgc_hashindex_add_key ::
  "ftgc_hashindex_s \<Rightarrow> ftgc_hashkey_t \<Rightarrow> int \<Rightarrow> bool \<Rightarrow> error + (int \<times> ftgc_hashindex_s)" where
  "ftgc_hashindex_add_key ctx key value malloc_ok =
     (if key < 0 \<or> length (table ctx) \<le> nat key then Inl OutOfBounds
      else if table ctx ! nat key = FTGC_HASHINDEX_UNUSED \<or>
              table ctx ! nat key = FTGC_HASHINDEX_DELETED
        then Inr (0, ctx\<lparr>table := (table ctx)[nat key := value]\<rparr>)
      else if table ctx ! nat key = value then Inr (1, ctx)
      else if length (chain ctx) \<le> nat key then Inl OutOfBounds
      else if ftgc__is_value_in_chain (chain ctx ! nat key) value then Inr (1, ctx)
      else
        (let chain_end = ftgc__get_chain_end (chain ctx ! nat key);
             c1 = node_update (\<lambda>n. Hashlink value (hnext n)) chain_end (chain ctx ! nat key);
             c2 = node_update (ftgc__append_node malloc_ok) chain_end c1;
             ctx' = ctx\<lparr>chain := (chain ctx)[nat key := c2]\<rparr>
         in case node_at c2 chain_end of
              None \<Rightarrow> Inl InvalidPointer
            | Some n \<Rightarrow> if hnext n = None then Inr (-1, ctx') else Inr (1, ctx')))"

definition ftgc_hashindex_remove_first_pre :: "ftgc_hashindex_s \<Rightarrow> ftgc_hashkey_t \<Rightarrow> bool" where
  "ftgc_hashindex_remove_first_pre ctx key = (key \<le> table_size ctx \<and> key \<ge> 0)"

definition ftgc_hashindex_remove_first ::
  "ftgc_hashindex_s \<Rightarrow> ftgc_hashkey_t \<Rightarrow> error + ftgc_hashindex_s" where
  "ftgc_hashindex_remove_first ctx key =
     (if key < 0 \<or> length (table ctx) \<le> nat key then Inl OutOfBounds
      else Inr (ctx\<lparr>table := (table ctx)[nat key := FTGC_HASHINDEX_DELETED]\<rparr>))"

definition ftgc_hashindex_iter_get_first_pre :: "ftgc_hashindex_s \<Rightarrow> ftgc_hashkey_t \<Rightarrow> bool" where
  "ftgc_hashindex_iter_get_first_pre ctx key = (key \<ge> 0 \<and> key \<le> table_size ctx)"

text \<open>The value of the table slot and the iterator, set to the first node of the slot's
  chain. (With \<open>iter == NULL\<close> the C function returns the same value and writes no
  iterator.)\<close>

definition ftgc_hashindex_iter_get_first ::
  "ftgc_hashindex_s \<Rightarrow> ftgc_hashkey_t \<Rightarrow> error + (int \<times> ftgc_hashindex_iter_s)" where
  "ftgc_hashindex_iter_get_first ctx key =
     (if key < 0 \<or> length (table ctx) \<le> nat key then Inl OutOfBounds
      else Inr (table ctx ! nat key, \<lparr> current_node = Some (nat key, 0), prev_node = None \<rparr>))"

text \<open>The first loop of \<open>ftgc_hashindex_iter_get_next\<close>: from the node \<open>cur\<close> at depth
  \<open>d\<close>, follow \<open>next\<close> while the value is \<open>FTGC_HASHINDEX_DELETED\<close>. The result is the
  node the loop stops at and its depth, or \<open>None\<close> when it ran off the chain.\<close>

fun ftgc__skip_deleted :: "ftgc__hashlink_s option \<Rightarrow> nat \<Rightarrow> (nat \<times> ftgc__hashlink_s) option" where
  "ftgc__skip_deleted None d = None"
| "ftgc__skip_deleted (Some (Hashlink v nx)) d =
     (if v \<noteq> FTGC_HASHINDEX_DELETED then Some (d, Hashlink v nx)
      else ftgc__skip_deleted nx (Suc d))"

text \<open>The iterator holds pointers into the index, so the model reads them in \<open>ctx\<close>.\<close>

definition ftgc_hashindex_iter_get_next ::
  "ftgc_hashindex_s \<Rightarrow> ftgc_hashindex_iter_s \<Rightarrow> error + (int \<times> ftgc_hashindex_iter_s)" where
  "ftgc_hashindex_iter_get_next ctx iter =
     (case current_node iter of
        None \<Rightarrow> Inr (-1, iter)
      | Some (k, d) \<Rightarrow>
          if length (chain ctx) \<le> k then Inl InvalidPointer
          else (case node_at (chain ctx ! k) d of
                  None \<Rightarrow> Inl InvalidPointer
                | Some cur \<Rightarrow>
                    (case ftgc__skip_deleted (Some cur) d of
                       None \<Rightarrow> Inr (-1, iter\<lparr>current_node := None\<rparr>)
                     | Some (d', n) \<Rightarrow>
                         Inr (hvalue n,
                              \<lparr> current_node = (if hnext n = None then None else Some (k, Suc d')),
                                prev_node = Some (k, d') \<rparr>))))"

definition ftgc_hashindex_iter_remove_current_pre :: "ftgc_hashindex_iter_s \<Rightarrow> bool" where
  "ftgc_hashindex_iter_remove_current_pre iter = (prev_node iter \<noteq> None)"

definition ftgc_hashindex_iter_remove_current ::
  "ftgc_hashindex_s \<Rightarrow> ftgc_hashindex_iter_s \<Rightarrow> error + ftgc_hashindex_s" where
  "ftgc_hashindex_iter_remove_current ctx iter =
     (case prev_node iter of
        None \<Rightarrow> Inl NullDereference
      | Some (k, d) \<Rightarrow>
          if length (chain ctx) \<le> k then Inl InvalidPointer
          else (case node_at (chain ctx ! k) d of
                  None \<Rightarrow> Inl InvalidPointer
                | Some n \<Rightarrow>
                    Inr (ctx\<lparr>chain := (chain ctx)
                          [k := node_update (\<lambda>n. Hashlink FTGC_HASHINDEX_DELETED (hnext n)) d
                                  (chain ctx ! k)]\<rparr>)))"

subsection \<open>Hash index: chains as lists of values\<close>


definition hashindex_wf :: "ftgc_hashindex_s \<Rightarrow> bool" where
  "hashindex_wf ctx =
     (length (table ctx) = nat (table_size ctx) \<and> length (chain ctx) = nat (table_size ctx))"

lemma link_values_nonempty [simp]: "link_values c \<noteq> []"
  by (induction c rule: link_values.induct) auto

lemma is_value_in_chain_iff:
  "ftgc__is_value_in_chain c v \<longleftrightarrow> v \<in> set (butlast (link_values c))"
  by (induction c rule: link_values.induct) auto

lemma length_link_values: "length (link_values c) = Suc (ftgc__get_chain_end c)"
  by (induction c rule: link_values.induct) auto

lemma link_values_set_end:
  "link_values (node_update (\<lambda>n. Hashlink v (hnext n)) (ftgc__get_chain_end c) c)
     = butlast (link_values c) @ [v]"
  by (induction c rule: link_values.induct) auto

lemma chain_end_set_end:
  "ftgc__get_chain_end (node_update (\<lambda>n. Hashlink v (hnext n)) (ftgc__get_chain_end c) c)
     = ftgc__get_chain_end c"
  by (induction c rule: link_values.induct) auto

lemma link_values_append_node:
  "link_values (node_update (ftgc__append_node ok) (ftgc__get_chain_end c) c)
     = (if ok then link_values c @ [FTGC_HASHINDEX_UNUSED] else link_values c)"
  by (induction c rule: link_values.induct) (auto simp: ftgc__append_node_def)

lemma node_at_append_node:
  "node_at (node_update (ftgc__append_node ok) (ftgc__get_chain_end c) c) (ftgc__get_chain_end c)
     = Some (Hashlink (last (link_values c))
               (if ok then Some (Hashlink FTGC_HASHINDEX_UNUSED None) else None))"
  by (induction c rule: link_values.induct) (auto simp: ftgc__append_node_def)

text \<open>What the last branch of \<open>ftgc_hashindex_add_key\<close> does to the chain: the value goes
  into the end node, then \<open>ftgc__append_node\<close> runs on that node.\<close>

definition chain_store :: "ftgc__hashlink_s \<Rightarrow> int \<Rightarrow> bool \<Rightarrow> ftgc__hashlink_s" where
  "chain_store c v ok =
     node_update (ftgc__append_node ok) (ftgc__get_chain_end c)
       (node_update (\<lambda>n. Hashlink v (hnext n)) (ftgc__get_chain_end c) c)"

lemma link_values_chain_store:
  "link_values (chain_store c v ok)
     = butlast (link_values c) @ (if ok then [v, FTGC_HASHINDEX_UNUSED] else [v])"
proof -
  let ?c1 = "node_update (\<lambda>n. Hashlink v (hnext n)) (ftgc__get_chain_end c) c"
  have "link_values (chain_store c v ok)
          = (if ok then link_values ?c1 @ [FTGC_HASHINDEX_UNUSED] else link_values ?c1)"
    unfolding chain_store_def
    using link_values_append_node [of ok ?c1] by (simp add: chain_end_set_end)
  then show ?thesis by (simp add: link_values_set_end)
qed

lemma add_key_append:
  assumes "0 \<le> key" "nat key < length (table ctx)" "nat key < length (chain ctx)"
    and "table ctx ! nat key \<noteq> FTGC_HASHINDEX_UNUSED"
    and "table ctx ! nat key \<noteq> FTGC_HASHINDEX_DELETED"
    and "table ctx ! nat key \<noteq> v"
    and "v \<notin> set (butlast (link_values (chain ctx ! nat key)))"
  shows "ftgc_hashindex_add_key ctx key v ok =
           Inr (if ok then 1 else -1,
                ctx\<lparr>chain := (chain ctx)[nat key := chain_store (chain ctx ! nat key) v ok]\<rparr>)"
proof -
  let ?c = "chain ctx ! nat key"
  let ?c1 = "node_update (\<lambda>n. Hashlink v (hnext n)) (ftgc__get_chain_end ?c) ?c"
  have e: "ftgc__get_chain_end ?c1 = ftgc__get_chain_end ?c" by (rule chain_end_set_end)
  have "node_at (node_update (ftgc__append_node ok) (ftgc__get_chain_end ?c) ?c1)
          (ftgc__get_chain_end ?c)
        = Some (Hashlink (last (link_values ?c1))
                  (if ok then Some (Hashlink FTGC_HASHINDEX_UNUSED None) else None))"
    using node_at_append_node [of ok ?c1] by (simp add: e)
  with assms show ?thesis
    by (simp add: ftgc_hashindex_add_key_def is_value_in_chain_iff chain_store_def Let_def)
qed

lemma add_key_cases:
  assumes "0 \<le> key" and "nat key < length (table ctx)" and "nat key < length (chain ctx)"
  shows "ftgc_hashindex_add_key ctx key v malloc_ok =
    (if table ctx ! nat key = FTGC_HASHINDEX_UNUSED \<or> table ctx ! nat key = FTGC_HASHINDEX_DELETED
       then Inr (0, ctx\<lparr>table := (table ctx)[nat key := v]\<rparr>)
     else if v = table ctx ! nat key \<or> v \<in> set (butlast (link_values (chain ctx ! nat key)))
       then Inr (1, ctx)
     else if malloc_ok
       then Inr (1, ctx\<lparr>chain := (chain ctx)[nat key := chain_store (chain ctx ! nat key) v True]\<rparr>)
     else Inr (-1, ctx\<lparr>chain := (chain ctx)[nat key := chain_store (chain ctx ! nat key) v False]\<rparr>))"
proof -
  consider (empty) "table ctx ! nat key = FTGC_HASHINDEX_UNUSED \<or> table ctx ! nat key = FTGC_HASHINDEX_DELETED"
    | (dup) "table ctx ! nat key \<noteq> FTGC_HASHINDEX_UNUSED" "table ctx ! nat key \<noteq> FTGC_HASHINDEX_DELETED"
        "v = table ctx ! nat key \<or> v \<in> set (butlast (link_values (chain ctx ! nat key)))"
    | (new) "table ctx ! nat key \<noteq> FTGC_HASHINDEX_UNUSED" "table ctx ! nat key \<noteq> FTGC_HASHINDEX_DELETED"
        "table ctx ! nat key \<noteq> v" "v \<notin> set (butlast (link_values (chain ctx ! nat key)))"
    by auto
  then show ?thesis
  proof cases
    case empty
    with assms show ?thesis by (auto simp: ftgc_hashindex_add_key_def)
  next
    case dup
    with assms show ?thesis by (auto simp: ftgc_hashindex_add_key_def is_value_in_chain_iff)
  next
    case new
    with assms add_key_append [of key ctx v malloc_ok] show ?thesis by auto
  qed
qed


subsection \<open>Hash index: the caller's iteration loop\<close>

text \<open>The loop the header documents and \<open>ftgc__dict_find_index_for_key\<close> runs:
  \<^verbatim>\<open>for (v = iter_get_first(ctx, &iter, key); v != FTGC_HASHINDEX_UNUSED; v = iter_get_next(&iter))\<close>.
  \<open>ftgc_hashindex_iterate\<close> is the list of the values \<open>v\<close> the loop body sees. Each call
  of \<open>ftgc_hashindex_iter_get_next\<close> that returns a node's value moves the iterator down
  the chain, which is why the loop ends.\<close>


lemma node_at_add:
  "node_at c d = Some cur \<Longrightarrow> node_at c (d + j) = node_at cur j"
  by (induction c d rule: node_at.induct) (auto split: option.splits)

lemma node_at_length:
  "node_at c d = Some n \<Longrightarrow> d < length (link_values c)"
proof (induction c d rule: node_at.induct)
  case (1 l)
  then show ?case by simp
next
  case (2 l d)
  then show ?case by (cases l) (auto split: option.splits)
qed

lemma node_at_next_length:
  "node_at c d = Some n \<Longrightarrow> hnext n \<noteq> None \<Longrightarrow> Suc d < length (link_values c)"
proof (induction c d rule: node_at.induct)
  case (1 l)
  then show ?case by (cases l) (auto split: option.splits)
next
  case (2 l d)
  then show ?case by (cases l) (auto split: option.splits)
qed

lemma skip_deleted_node:
  "ftgc__skip_deleted x d = Some (d', n) \<Longrightarrow>
     \<exists>j cur. x = Some cur \<and> d' = d + j \<and> node_at cur j = Some n"
proof (induction x d rule: ftgc__skip_deleted.induct)
  case (1 d)
  then show ?case by simp
next
  case (2 v nx d)
  show ?case
  proof (cases "v \<noteq> FTGC_HASHINDEX_DELETED")
    case True
    with 2 show ?thesis by (auto intro: exI [of _ 0])
  next
    case False
    with 2 obtain j cur where "nx = Some cur" "d' = Suc d + j" "node_at cur j = Some n"
      by auto
    then show ?thesis by (auto intro!: exI [of _ "Suc j"])
  qed
qed

definition iter_remaining :: "ftgc_hashindex_s \<Rightarrow> ftgc_hashindex_iter_s \<Rightarrow> nat" where
  "iter_remaining ctx iter =
     (case current_node iter of
        None \<Rightarrow> 0
      | Some (k, d) \<Rightarrow> Suc (length (link_values (chain ctx ! k)) - d))"

lemma get_next_advances:
  assumes "ftgc_hashindex_iter_get_next ctx iter = Inr (v', iter')"
  shows "v' = FTGC_HASHINDEX_UNUSED \<or> iter_remaining ctx iter' < iter_remaining ctx iter"
proof (cases "current_node iter")
  case None
  with assms show ?thesis
    by (simp add: ftgc_hashindex_iter_get_next_def FTGC_HASHINDEX_UNUSED_def)
next
  case (Some p)
  obtain k d where p: "p = (k, d)" by (cases p)
  from assms Some p obtain cur where cur: "node_at (chain ctx ! k) d = Some cur"
    by (auto simp: ftgc_hashindex_iter_get_next_def split: if_splits option.splits)
  show ?thesis
  proof (cases "ftgc__skip_deleted (Some cur) d")
    case None
    with assms Some p cur show ?thesis
      by (auto simp: ftgc_hashindex_iter_get_next_def FTGC_HASHINDEX_UNUSED_def split: if_splits)
  next
    case (Some r)
    obtain d' n where r: "r = (d', n)" by (cases r)
    from skip_deleted_node [of "Some cur" d d' n] Some r
    obtain j where j: "d' = d + j" "node_at cur j = Some n" by auto
    with cur have at: "node_at (chain ctx ! k) d' = Some n" by (simp add: node_at_add)
    from assms \<open>current_node iter = Some p\<close> p cur Some r
    have it: "current_node iter' = (if hnext n = None then None else Some (k, Suc d'))"
      by (auto simp: ftgc_hashindex_iter_get_next_def split: if_splits)
    show ?thesis
    proof (cases "hnext n = None")
      case True
      with it \<open>current_node iter = Some p\<close> p show ?thesis by (simp add: iter_remaining_def)
    next
      case False
      with at have "Suc d' < length (link_values (chain ctx ! k))"
        by (rule node_at_next_length)
      then have "length (link_values (chain ctx ! k)) - Suc d'
                   < length (link_values (chain ctx ! k)) - d"
        using j by arith
      with it False \<open>current_node iter = Some p\<close> p show ?thesis
        by (simp add: iter_remaining_def)
    qed
  qed
qed

function ftgc__iterate_from ::
  "ftgc_hashindex_s \<Rightarrow> ftgc_hashindex_iter_s \<Rightarrow> int \<Rightarrow> error + int list" where
  "ftgc__iterate_from ctx iter v =
     (if v = FTGC_HASHINDEX_UNUSED then Inr []
      else case ftgc_hashindex_iter_get_next ctx iter of
             Inl e \<Rightarrow> Inl e
           | Inr (v', iter') \<Rightarrow>
               (case ftgc__iterate_from ctx iter' v' of
                  Inl e \<Rightarrow> Inl e
                | Inr vs \<Rightarrow> Inr (v # vs)))"
  by pat_completeness auto
termination
proof (relation "measure (\<lambda>(ctx, iter, v).
          if v = FTGC_HASHINDEX_UNUSED then 0 else Suc (iter_remaining ctx iter))")
  show "wf (measure (\<lambda>(ctx, iter, v).
          if v = FTGC_HASHINDEX_UNUSED then 0 else Suc (iter_remaining ctx iter)))"
    by simp
next
  fix ctx iter v x2 x y
  assume "v \<noteq> FTGC_HASHINDEX_UNUSED"
    and "ftgc_hashindex_iter_get_next ctx iter = Inr x2" and "(x, y) = x2"
  then have "ftgc_hashindex_iter_get_next ctx iter = Inr (x, y)" by simp
  from get_next_advances [OF this] \<open>v \<noteq> FTGC_HASHINDEX_UNUSED\<close>
  show "((ctx, y, x), ctx, iter, v) \<in> measure (\<lambda>(ctx, iter, v).
          if v = FTGC_HASHINDEX_UNUSED then 0 else Suc (iter_remaining ctx iter))"
    by auto
qed

declare ftgc__iterate_from.simps [simp del]

definition ftgc_hashindex_iterate :: "ftgc_hashindex_s \<Rightarrow> ftgc_hashkey_t \<Rightarrow> error + int list" where
  "ftgc_hashindex_iterate ctx key =
     (case ftgc_hashindex_iter_get_first ctx key of
        Inl e \<Rightarrow> Inl e
      | Inr (v, iter) \<Rightarrow> ftgc__iterate_from ctx iter v)"

definition chain_yield :: "int list \<Rightarrow> int list" where
  "chain_yield vs =
     takeWhile (\<lambda>v. v \<noteq> FTGC_HASHINDEX_UNUSED) (filter (\<lambda>v. v \<noteq> FTGC_HASHINDEX_DELETED) vs)"


lemma chain_yield_Cons:
  "chain_yield (x # xs) =
     (if x = FTGC_HASHINDEX_DELETED then chain_yield xs
      else if x = FTGC_HASHINDEX_UNUSED then []
      else x # chain_yield xs)"
  by (simp add: chain_yield_def)

lemma chain_yield_Nil [simp]: "chain_yield [] = []"
  by (simp add: chain_yield_def)

lemma iterate_from_NULL:
  "current_node iter = None \<Longrightarrow>
     ftgc__iterate_from ctx iter v = Inr (if v = FTGC_HASHINDEX_UNUSED then [] else [v])"
  by (simp add: ftgc__iterate_from.simps [of ctx iter v]
        ftgc__iterate_from.simps [of ctx iter "-1"]
        ftgc_hashindex_iter_get_next_def FTGC_HASHINDEX_UNUSED_def)

lemma iterate_from_chain:
  "k < length (chain ctx) \<Longrightarrow> node_at (chain ctx ! k) d = Some cur \<Longrightarrow>
   current_node iter = Some (k, d) \<Longrightarrow>
   ftgc__iterate_from ctx iter v =
     Inr (if v = FTGC_HASHINDEX_UNUSED then [] else v # chain_yield (link_values cur))"
proof (induction cur arbitrary: d iter v rule: link_values.induct)
  case (1 x)
  let ?it = "\<lparr>current_node = None, prev_node = Some (k, d)\<rparr>"
  show ?case
  proof (cases "x = FTGC_HASHINDEX_DELETED")
    case True
    with 1 have "ftgc_hashindex_iter_get_next ctx iter = Inr (-1, iter\<lparr>current_node := None\<rparr>)"
      by (simp add: ftgc_hashindex_iter_get_next_def)
    then show ?thesis using True
      by (simp add: ftgc__iterate_from.simps [of ctx iter v]
            ftgc__iterate_from.simps [of ctx _ "-1"] chain_yield_Cons FTGC_HASHINDEX_UNUSED_def)
  next
    case False
    with 1 have "ftgc_hashindex_iter_get_next ctx iter = Inr (x, ?it)"
      by (simp add: ftgc_hashindex_iter_get_next_def)
    then show ?thesis using False iterate_from_NULL [of ?it ctx x]
      by (simp add: ftgc__iterate_from.simps [of ctx iter v] chain_yield_Cons)
  qed
next
  case (2 x n)
  have nxt: "node_at (chain ctx ! k) (Suc d) = Some n"
    using node_at_add [OF "2.prems"(2), of 1] by simp
  show ?case
  proof (cases "x = FTGC_HASHINDEX_DELETED")
    case True
    let ?it = "iter\<lparr>current_node := Some (k, Suc d)\<rparr>"
    have "ftgc_hashindex_iter_get_next ctx iter = ftgc_hashindex_iter_get_next ctx ?it"
      using 2 True nxt
      by (cases n) (auto simp: ftgc_hashindex_iter_get_next_def split: option.splits)
    then have "ftgc__iterate_from ctx iter v = ftgc__iterate_from ctx ?it v"
      by (simp add: ftgc__iterate_from.simps [of ctx iter v] ftgc__iterate_from.simps [of ctx ?it v])
    also have "\<dots> = Inr (if v = FTGC_HASHINDEX_UNUSED then [] else v # chain_yield (link_values n))"
      using "2.IH" [OF "2.prems"(1) nxt, of ?it v] by simp
    finally show ?thesis using True by (simp add: chain_yield_Cons)
  next
    case False
    let ?it = "\<lparr>current_node = Some (k, Suc d), prev_node = Some (k, d)\<rparr>"
    from 2 False have "ftgc_hashindex_iter_get_next ctx iter = Inr (x, ?it)"
      by (simp add: ftgc_hashindex_iter_get_next_def)
    moreover have "ftgc__iterate_from ctx ?it x =
        Inr (if x = FTGC_HASHINDEX_UNUSED then [] else x # chain_yield (link_values n))"
      using "2.IH" [OF "2.prems"(1) nxt, of ?it x] by simp
    ultimately show ?thesis using False
      by (simp add: ftgc__iterate_from.simps [of ctx iter v] chain_yield_Cons)
  qed
qed

lemma iterate_eq:
  assumes "0 \<le> key" "nat key < length (table ctx)" "nat key < length (chain ctx)"
  shows "ftgc_hashindex_iterate ctx key =
     Inr (if table ctx ! nat key = FTGC_HASHINDEX_UNUSED then []
          else table ctx ! nat key # chain_yield (link_values (chain ctx ! nat key)))"
  using assms iterate_from_chain [of "nat key" ctx 0 "chain ctx ! nat key"
      "\<lparr>current_node = Some (nat key, 0), prev_node = None\<rparr>" "table ctx ! nat key"]
  by (simp add: ftgc_hashindex_iterate_def ftgc_hashindex_iter_get_first_def)


subsection \<open>Hash index: the states the operations reach\<close>

text \<open>The indexes that \<open>ftgc_hashindex_init\<close> followed by any calls of
  \<open>ftgc_hashindex_add_key\<close> (with either outcome of its allocation) and
  \<open>ftgc_hashindex_remove_first\<close> can produce; \<open>ftgc_hashindex_add_keys\<close> is a run of
  \<open>ftgc_hashindex_add_key\<close> calls on one key, with the return value of each call.\<close>


inductive hashindex_reachable :: "ftgc_hashindex_s \<Rightarrow> bool" where
  reach_init: "ftgc_hashindex_init vert_size True True = (1, ctx) \<Longrightarrow> hashindex_reachable ctx"
| reach_add: "hashindex_reachable ctx \<Longrightarrow>
     ftgc_hashindex_add_key ctx key v malloc_ok = Inr (r, ctx') \<Longrightarrow> hashindex_reachable ctx'"
| reach_remove: "hashindex_reachable ctx \<Longrightarrow>
     ftgc_hashindex_remove_first ctx key = Inr ctx' \<Longrightarrow> hashindex_reachable ctx'"

fun ftgc_hashindex_add_keys ::
  "ftgc_hashindex_s \<Rightarrow> ftgc_hashkey_t \<Rightarrow> (int \<times> bool) list \<Rightarrow> error + (int list \<times> ftgc_hashindex_s)" where
  "ftgc_hashindex_add_keys ctx key [] = Inr ([], ctx)"
| "ftgc_hashindex_add_keys ctx key ((v, malloc_ok) # rest) =
     (case ftgc_hashindex_add_key ctx key v malloc_ok of
        Inl e \<Rightarrow> Inl e
      | Inr (r, ctx') \<Rightarrow>
          (case ftgc_hashindex_add_keys ctx' key rest of
             Inl e \<Rightarrow> Inl e
           | Inr (rs, ctx'') \<Rightarrow> Inr (r # rs, ctx'')))"

definition chain_inv :: "ftgc__hashlink_s \<Rightarrow> bool" where
  "chain_inv c =
     (distinct (butlast (link_values c)) \<and>
      (last (link_values c) = FTGC_HASHINDEX_UNUSED \<or>
       last (link_values c) \<notin> set (butlast (link_values c))))"

lemma add_key_result:
  assumes "ftgc_hashindex_add_key ctx key v ok = Inr (r, ctx')"
  shows "0 \<le> key \<and> nat key < length (table ctx) \<and> table_size ctx' = table_size ctx \<and>
         length (table ctx') = length (table ctx) \<and>
         (chain ctx' = chain ctx \<or>
          (nat key < length (chain ctx) \<and> table ctx' = table ctx \<and>
           v \<notin> set (butlast (link_values (chain ctx ! nat key))) \<and>
           chain ctx' = (chain ctx)[nat key := chain_store (chain ctx ! nat key) v ok]))"
proof -
  from assms have k: "0 \<le> key" "nat key < length (table ctx)"
    by (auto simp: ftgc_hashindex_add_key_def split: if_splits)
  show ?thesis
  proof (cases "nat key < length (chain ctx)")
    case True
    from assms show ?thesis
      unfolding add_key_cases [OF k True] using k True by (auto split: if_splits)
  next
    case False
    with assms k show ?thesis
      by (auto simp: ftgc_hashindex_add_key_def split: if_splits)
  qed
qed

lemma chain_inv_store:
  assumes "chain_inv c" and "v \<notin> set (butlast (link_values c))"
  shows "chain_inv (chain_store c v ok)"
  using assms by (auto simp: chain_inv_def link_values_chain_store butlast_append)

lemma init_result:
  assumes "ftgc_hashindex_init vert_size table_ok chain_ok = (1, ctx)"
  shows "table ctx = replicate (nat (table_size ctx)) FTGC_HASHINDEX_UNUSED
       \<and> chain ctx = replicate (nat (table_size ctx)) (Hashlink FTGC_HASHINDEX_UNUSED None)"
  using assms by (auto simp: ftgc_hashindex_init_def Let_def split: if_splits)

lemma reachable_chain_inv:
  "hashindex_reachable ctx \<Longrightarrow> \<forall>c \<in> set (chain ctx). chain_inv c"
proof (induction rule: hashindex_reachable.induct)
  case (reach_init vert_size ctx)
  from init_result [OF this] show ?case by (auto simp: chain_inv_def)
next
  case (reach_add ctx key v malloc_ok r ctx')
  from add_key_result [OF reach_add.hyps(2)]
  consider "chain ctx' = chain ctx"
    | "nat key < length (chain ctx)" "v \<notin> set (butlast (link_values (chain ctx ! nat key)))"
      "chain ctx' = (chain ctx)[nat key := chain_store (chain ctx ! nat key) v malloc_ok]"
    by auto
  then show ?case
  proof cases
    case 1
    with reach_add.IH show ?thesis by simp
  next
    case 2
    from 2(1) reach_add.IH have "chain_inv (chain ctx ! nat key)" by simp
    then have "chain_inv (chain_store (chain ctx ! nat key) v malloc_ok)"
      using 2(2) by (rule chain_inv_store)
    with reach_add.IH 2(3) show ?thesis
      using set_update_subset_insert [of "chain ctx" "nat key"] by auto
  qed
next
  case (reach_remove ctx key ctx')
  then show ?case by (auto simp: ftgc_hashindex_remove_first_def split: if_splits)
qed

lemma reachable_wf: "hashindex_reachable ctx \<Longrightarrow> hashindex_wf ctx"
proof (induction rule: hashindex_reachable.induct)
  case (reach_init vert_size ctx)
  from init_result [OF this] show ?case
    by (metis hashindex_wf_def length_replicate)
next
  case (reach_add ctx key v malloc_ok r ctx')
  from add_key_result [OF reach_add.hyps(2)] reach_add.IH show ?case
    by (auto simp: hashindex_wf_def)
next
  case (reach_remove ctx key ctx')
  then show ?case
    by (auto simp: ftgc_hashindex_remove_first_def hashindex_wf_def split: if_splits)
qed


text \<open>The state of one slot after calls of \<open>ftgc_hashindex_add_key\<close> alone: \<open>S\<close> is the set
  of values added so far.\<close>


definition slot_inv :: "ftgc_hashindex_s \<Rightarrow> nat \<Rightarrow> int set \<Rightarrow> bool" where
  "slot_inv ctx k S =
     (k < length (table ctx) \<and> k < length (chain ctx) \<and>
      FTGC_HASHINDEX_UNUSED \<notin> S \<and> FTGC_HASHINDEX_DELETED \<notin> S \<and>
      last (link_values (chain ctx ! k)) = FTGC_HASHINDEX_UNUSED \<and>
      (if table ctx ! k = FTGC_HASHINDEX_UNUSED
       then S = {} \<and> butlast (link_values (chain ctx ! k)) = []
       else distinct (table ctx ! k # butlast (link_values (chain ctx ! k))) \<and>
            set (table ctx ! k # butlast (link_values (chain ctx ! k))) = S))"

lemma slot_inv_add_key:
  assumes inv: "slot_inv ctx (nat key) S" and "0 \<le> key"
    and add: "ftgc_hashindex_add_key ctx key v ok = Inr (r, ctx')"
    and "r \<noteq> -1" and "v \<noteq> FTGC_HASHINDEX_UNUSED" and "v \<noteq> FTGC_HASHINDEX_DELETED"
  shows "slot_inv ctx' (nat key) (insert v S)"
proof -
  let ?k = "nat key"
  from inv have k: "?k < length (table ctx)" "?k < length (chain ctx)"
    by (auto simp: slot_inv_def)
  note cases = add_key_cases [OF \<open>0 \<le> key\<close> k, of v ok]
  let ?b = "butlast (link_values (chain ctx ! ?k))"
  have lv: "link_values (chain ctx ! ?k) = ?b @ [FTGC_HASHINDEX_UNUSED]"
    using inv by (metis slot_inv_def append_butlast_last_id link_values_nonempty)
  show ?thesis
  proof (cases "table ctx ! ?k = FTGC_HASHINDEX_UNUSED")
    case True
    with add cases have "ctx' = ctx\<lparr>table := (table ctx)[?k := v]\<rparr>" by simp
    with inv True k assms(5,6) show ?thesis by (auto simp: slot_inv_def)
  next
    case False
    with inv have nd: "table ctx ! ?k \<noteq> FTGC_HASHINDEX_DELETED"
      by (auto simp: slot_inv_def)
    show ?thesis
    proof (cases "v = table ctx ! ?k \<or> v \<in> set ?b")
      case True
      with add cases False nd have "ctx' = ctx" by simp
      moreover from True inv False have "insert v S = S" by (auto simp: slot_inv_def)
      ultimately show ?thesis using inv by simp
    next
      case new: False
      with add cases False nd \<open>r \<noteq> -1\<close>
      have c': "ctx' = ctx\<lparr>chain := (chain ctx)[?k := chain_store (chain ctx ! ?k) v True]\<rparr>"
        by (auto split: if_splits)
      have "link_values (chain_store (chain ctx ! ?k) v True) = ?b @ [v, FTGC_HASHINDEX_UNUSED]"
        by (simp add: link_values_chain_store)
      then have "butlast (link_values (chain ctx' ! ?k)) = ?b @ [v]"
        and "last (link_values (chain ctx' ! ?k)) = FTGC_HASHINDEX_UNUSED"
        using c' k by (simp_all add: butlast_append)
      with inv False new k c' assms(5,6) show ?thesis
        by (auto simp: slot_inv_def)
    qed
  qed
qed

lemma slot_inv_add_keys:
  "slot_inv ctx (nat key) S \<Longrightarrow> 0 \<le> key \<Longrightarrow>
   ftgc_hashindex_add_keys ctx key calls = Inr (rs, ctx') \<Longrightarrow> -1 \<notin> set rs \<Longrightarrow>
   FTGC_HASHINDEX_UNUSED \<notin> fst ` set calls \<Longrightarrow> FTGC_HASHINDEX_DELETED \<notin> fst ` set calls \<Longrightarrow>
   slot_inv ctx' (nat key) (S \<union> fst ` set calls)"
proof (induction ctx key calls arbitrary: S rs rule: ftgc_hashindex_add_keys.induct)
  case (1 ctx key)
  then show ?case by simp
next
  case (2 ctx key v malloc_ok rest)
  from "2.prems"(3) obtain r c1 rs1 where
    a: "ftgc_hashindex_add_key ctx key v malloc_ok = Inr (r, c1)"
    and b: "ftgc_hashindex_add_keys c1 key rest = Inr (rs1, ctx')" and rs: "rs = r # rs1"
    by (auto split: sum.splits)
  from "2.prems" rs have "slot_inv c1 (nat key) (insert v S)"
    by (intro slot_inv_add_key [OF "2.prems"(1,2) a]) auto
  from "2.IH" [OF a refl this "2.prems"(2) b] "2.prems" rs
  have "slot_inv ctx' (nat key) (insert v S \<union> fst ` set rest)" by auto
  then show ?case by simp
qed

lemma chain_yield_plain:
  "FTGC_HASHINDEX_UNUSED \<notin> set b \<Longrightarrow> FTGC_HASHINDEX_DELETED \<notin> set b \<Longrightarrow>
   chain_yield (b @ [FTGC_HASHINDEX_UNUSED]) = b"
  by (induction b) (auto simp: chain_yield_Cons)

lemma slot_inv_iterate:
  assumes "slot_inv ctx (nat key) S" and "0 \<le> key"
  shows "\<exists>its. ftgc_hashindex_iterate ctx key = Inr its \<and> distinct its \<and> set its = S"
proof -
  let ?k = "nat key"
  let ?b = "butlast (link_values (chain ctx ! ?k))"
  from assms have k: "?k < length (table ctx)" "?k < length (chain ctx)"
    by (auto simp: slot_inv_def)
  have lv: "link_values (chain ctx ! ?k) = ?b @ [FTGC_HASHINDEX_UNUSED]"
    using assms(1) by (metis slot_inv_def append_butlast_last_id link_values_nonempty)
  show ?thesis
  proof (cases "table ctx ! ?k = FTGC_HASHINDEX_UNUSED")
    case True
    with assms k show ?thesis by (simp add: iterate_eq slot_inv_def)
  next
    case False
    with assms(1) have S: "distinct (table ctx ! ?k # ?b)" "set (table ctx ! ?k # ?b) = S"
      "FTGC_HASHINDEX_UNUSED \<notin> S" "FTGC_HASHINDEX_DELETED \<notin> S"
      by (auto simp: slot_inv_def)
    then have "chain_yield (?b @ [FTGC_HASHINDEX_UNUSED]) = ?b"
      by (intro chain_yield_plain) auto
    with lv have "chain_yield (link_values (chain ctx ! ?k)) = ?b" by simp
    with False S k \<open>0 \<le> key\<close> show ?thesis by (simp add: iterate_eq)
  qed
qed

lemma slot_inv_init:
  assumes "ftgc_hashindex_init vert_size True True = (1, ctx)"
    and "0 \<le> key" and "key < table_size ctx"
  shows "slot_inv ctx (nat key) {}"
  using init_result [OF assms(1)] assms(2,3)
  by (auto simp: slot_inv_def FTGC_HASHINDEX_UNUSED_def)

subsection \<open>Hash index: evaluating the operations\<close>

lemmas hi_eval = ftgc_hashindex_add_key_def ftgc_hashindex_remove_first_def
  ftgc_hashindex_iter_get_first_def ftgc_hashindex_iter_get_next_def
  ftgc_hashindex_iter_remove_current_def ftgc__append_node_def
  FTGC_HASHINDEX_UNUSED_def FTGC_HASHINDEX_DELETED_def Let_def

lemma init_2: "ftgc_hashindex_init 2 True True =
   (1, \<lparr>table = [-1, -1], chain = [Hashlink (-1) None, Hashlink (-1) None],
         table_size = 2, hash_mask = 1\<rparr>)"
  by (simp add: ftgc_hashindex_init_def ftgc__pow2_roundup_def FTGC_HASHINDEX_UNUSED_def
        Let_def numeral_eq_Suc)


subsection \<open>Resizable array\<close>

text \<open>An array is the pointer \<open>a\<close> behind which two \<open>size_t\<close> of housekeeping sit:
  \<open>ftgc__array_raw(a)[0]\<close>, the capacity in elements, and \<open>ftgc__array_raw(a)[1]\<close>, the
  number of elements stored. \<open>None\<close> is the \<open>NULL\<close> array. \<open>items\<close> are the elements
  written so far and \<open>alloc_elems\<close> is the number of elements the block that
  \<open>FTGC_REALLOC\<close> returned has room for behind the housekeeping. A \<open>size_t\<close> has 64
  bits, and its sums and products wrap around at \<open>2 ^ 64\<close>. \<open>item_sz\<close> is \<open>sizeof(*a)\<close>,
  which the macros pass to \<open>ftgc__array_grow\<close>.\<close>

record 'a ftgc_array_s =
  raw_size :: nat
  raw_count :: nat
  items :: "'a list"
  alloc_elems :: nat

text \<open>A \<open>float\<close> has 24 significant binary digits. \<open>bit_length n\<close> is the number of
  binary digits of \<open>n\<close>, and \<open>round_to_float m\<close> is the multiple of
  \<open>2 ^ (bit_length m - 24)\<close> nearest to \<open>m\<close>, the one with the even quotient when two are
  equally near: the value of \<open>m\<close> as a \<open>float\<close>, and twice the value of \<open>m / 2\<close> as a
  \<open>float\<close>.\<close>

fun bit_length :: "nat \<Rightarrow> nat" where
  "bit_length n = (if n = 0 then 0 else Suc (bit_length (n div 2)))"

declare bit_length.simps [simp del]

definition round_to_float :: "nat \<Rightarrow> nat" where
  "round_to_float m =
     (let k = bit_length m - 24; q = m div 2 ^ k; r = m mod 2 ^ k
      in if 2 ^ k < 2 * r \<or> (2 * r = 2 ^ k \<and> odd q) then (q + 1) * 2 ^ k else q * 2 ^ k)"

text \<open>\<open>(int)((float)old_elem_count * 1.5f)\<close>: the count is rounded to a \<open>float\<close> \<open>f\<close>;
  the product \<open>3f / 2\<close> is rounded to a \<open>float\<close>, which is \<open>round_to_float (3 * f) / 2\<close>;
  the conversion to \<open>int\<close> drops the fraction, and is undefined when the value is
  \<open>2 ^ 31\<close> or more.\<close>

definition ftgc__default_new_elem_count :: "nat \<Rightarrow> nat \<Rightarrow> error + nat" where
  "ftgc__default_new_elem_count old_elem_count incr_elems =
     (let product2 = round_to_float (3 * round_to_float old_elem_count)
      in if 2 ^ 32 \<le> product2 then Inl ConversionOverflow
         else
           (let expand_new_elem_count = product2 div 2;
                min_new_elem_count = (old_elem_count + incr_elems) mod 2 ^ 64
            in if min_new_elem_count > expand_new_elem_count then Inr min_new_elem_count
               else Inr expand_new_elem_count))"

definition ftgc__array_size :: "'a ftgc_array_s \<Rightarrow> nat" where
  "ftgc__array_size a = raw_size a"

definition ftgc_array_count :: "'a ftgc_array_s option \<Rightarrow> nat" where
  "ftgc_array_count a = (case a of None \<Rightarrow> 0 | Some r \<Rightarrow> raw_count r)"

definition ftgc__array_test_needs_to_grow :: "'a ftgc_array_s option \<Rightarrow> nat \<Rightarrow> bool" where
  "ftgc__array_test_needs_to_grow a n =
     (case a of
        None \<Rightarrow> True
      | Some r \<Rightarrow> (ftgc_array_count a + n) mod 2 ^ 64 > ftgc__array_size r)"

definition ftgc__array_grow_pre :: "'a ftgc_array_s option \<Rightarrow> nat \<Rightarrow> bool" where
  "ftgc__array_grow_pre array incr_elems =
     (let old_elem_count = (case array of None \<Rightarrow> 0 | Some r \<Rightarrow> ftgc__array_size r)
      in case ftgc__default_new_elem_count old_elem_count incr_elems of
           Inl e \<Rightarrow> False
         | Inr new_elem_count \<Rightarrow>
             new_elem_count > 0 \<and> new_elem_count > old_elem_count \<and> incr_elems > 0)"

text \<open>\<open>ftgc__array_grow\<close>: the block is reallocated to \<open>new_bytes\<close> bytes, the
  housekeeping and \<open>new_elem_count\<close> elements, and the capacity in the housekeeping grows
  by \<open>incr_elems\<close>. When \<open>FTGC_REALLOC\<close> fails the array is returned as it was. A block
  of fewer bytes than the housekeeping, which \<open>new_bytes\<close> can ask for after wrapping
  around, is written outside.\<close>

definition ftgc__array_grow ::
  "'a ftgc_array_s option \<Rightarrow> nat \<Rightarrow> nat \<Rightarrow> bool \<Rightarrow> error + 'a ftgc_array_s option" where
  "ftgc__array_grow array incr_elems item_sz realloc_ok =
     (let old_elem_count = (case array of None \<Rightarrow> 0 | Some r \<Rightarrow> ftgc__array_size r);
          housekeeping_size = 16
      in case ftgc__default_new_elem_count old_elem_count incr_elems of
           Inl e \<Rightarrow> Inl e
         | Inr new_elem_count \<Rightarrow>
             (let new_bytes = (new_elem_count * item_sz + housekeeping_size) mod 2 ^ 64
              in if \<not> realloc_ok then Inr array
                 else if new_bytes < housekeeping_size then Inl OutOfBounds
                 else
                   (let room = (new_bytes - housekeeping_size) div item_sz;
                        r0 = (case array of
                                None \<Rightarrow> \<lparr> raw_size = 0, raw_count = 0, items = [],
                                           alloc_elems = room \<rparr>
                              | Some r \<Rightarrow> r\<lparr>alloc_elems := room\<rparr>);
                        r1 = (if old_elem_count = 0
                              then r0\<lparr>raw_size := 0, raw_count := 0, items := []\<rparr> else r0)
                    in Inr (Some (r1\<lparr>raw_size := (raw_size r1 + incr_elems) mod 2 ^ 64\<rparr>)))))"

definition ftgc__array_grow_if_needed ::
  "'a ftgc_array_s option \<Rightarrow> nat \<Rightarrow> nat \<Rightarrow> bool \<Rightarrow> error + 'a ftgc_array_s option" where
  "ftgc__array_grow_if_needed a n item_sz realloc_ok =
     (if ftgc__array_test_needs_to_grow a n then ftgc__array_grow a n item_sz realloc_ok
      else Inr a)"

definition ftgc_array_reserve ::
  "'a ftgc_array_s option \<Rightarrow> nat \<Rightarrow> nat \<Rightarrow> bool \<Rightarrow> error + 'a ftgc_array_s option" where
  "ftgc_array_reserve a n item_sz realloc_ok = ftgc__array_grow a n item_sz realloc_ok"

definition ftgc_array_init :: "nat \<Rightarrow> nat \<Rightarrow> bool \<Rightarrow> error + 'a ftgc_array_s option" where
  "ftgc_array_init n item_sz realloc_ok = ftgc_array_reserve None n item_sz realloc_ok"

text \<open>\<open>ftgc_array_append(a, d)\<close> is \<open>(grow_if_needed(a, 1), a[raw(a)[1]++] = d)\<close>: the write
  happens whether or not the growth succeeded. Through \<open>NULL\<close>, or past the block, it is
  an error.\<close>

definition ftgc_array_append ::
  "'a ftgc_array_s option \<Rightarrow> 'a \<Rightarrow> nat \<Rightarrow> bool \<Rightarrow> error + 'a ftgc_array_s option" where
  "ftgc_array_append a d item_sz realloc_ok =
     (case ftgc__array_grow_if_needed a 1 item_sz realloc_ok of
        Inl e \<Rightarrow> Inl e
      | Inr None \<Rightarrow> Inl NullDereference
      | Inr (Some r) \<Rightarrow>
          if alloc_elems r \<le> raw_count r then Inl OutOfBounds
          else Inr (Some (r\<lparr>items := take (raw_count r) (items r) @ [d],
                             raw_count := (raw_count r + 1) mod 2 ^ 64\<rparr>)))"

definition ftgc_array_free :: "'a ftgc_array_s option \<Rightarrow> 'a ftgc_array_s option" where
  "ftgc_array_free a = None"

text \<open>An array whose count is at most its capacity, and whose capacity is at most the room
  of its block.\<close>

definition array_wf :: "'a ftgc_array_s option \<Rightarrow> bool" where
  "array_wf a =
     (case a of
        None \<Rightarrow> True
      | Some r \<Rightarrow> raw_count r \<le> raw_size r \<and> raw_size r \<le> alloc_elems r \<and>
                  length (items r) = raw_count r)"

definition array_capacity :: "'a ftgc_array_s option \<Rightarrow> nat" where
  "array_capacity a = (case a of None \<Rightarrow> 0 | Some r \<Rightarrow> ftgc__array_size r)"

subsection \<open>Resizable array: rounding to a float\<close>

lemma bit_length_less: "n < 2 ^ bit_length n"
proof (induction n rule: bit_length.induct)
  case (1 n)
  show ?case
  proof (cases "n = 0")
    case True
    then show ?thesis by simp
  next
    case False
    with 1 have "n div 2 < 2 ^ bit_length (n div 2)" by simp
    moreover have "bit_length n = Suc (bit_length (n div 2))"
      using False by (simp add: bit_length.simps [of n])
    ultimately show ?thesis by simp
  qed
qed

lemma bit_length_ge: "0 < n \<Longrightarrow> 2 ^ (bit_length n - 1) \<le> n"
proof (induction n rule: bit_length.induct)
  case (1 n)
  then have n: "n \<noteq> 0" by simp
  have bl: "bit_length n = Suc (bit_length (n div 2))"
    using n by (simp add: bit_length.simps [of n])
  show ?case
  proof (cases "n div 2 = 0")
    case True
    then have "bit_length (n div 2) = 0" by (simp add: bit_length.simps [of 0])
    with bl 1 show ?thesis by simp
  next
    case False
    with 1 n have ih: "2 ^ (bit_length (n div 2) - 1) \<le> n div 2" by simp
    from False have "bit_length (n div 2) \<noteq> 0" by (simp add: bit_length.simps [of "n div 2"])
    then obtain j where j: "bit_length (n div 2) = Suc j" by (cases "bit_length (n div 2)") auto
    with ih have "2 * 2 ^ j \<le> 2 * (n div 2)" by simp
    also have "\<dots> \<le> n" by simp
    finally show ?thesis using bl j by simp
  qed
qed

lemma bit_length_mono: "m \<le> n \<Longrightarrow> bit_length m \<le> bit_length n"
proof (induction n arbitrary: m rule: bit_length.induct)
  case (1 n)
  show ?case
  proof (cases "m = 0")
    case True
    then show ?thesis by (simp add: bit_length.simps [of 0])
  next
    case False
    with 1 have n: "n \<noteq> 0" by simp
    from 1(2) have "m div 2 \<le> n div 2" by (rule div_le_mono)
    with 1(1) n have "bit_length (m div 2) \<le> bit_length (n div 2)" by simp
    then show ?thesis using False n by (simp add: bit_length.simps [of n] bit_length.simps [of m])
  qed
qed

lemma round_to_float_bounds:
  "(m div 2 ^ (bit_length m - 24)) * 2 ^ (bit_length m - 24) \<le> round_to_float m"
  "round_to_float m \<le> (m div 2 ^ (bit_length m - 24) + 1) * 2 ^ (bit_length m - 24)"
  by (auto simp: round_to_float_def Let_def)

lemma mantissa_less: "m div 2 ^ (bit_length m - 24) < 2 ^ 24"
proof -
  have "m < 2 ^ bit_length m" by (rule bit_length_less)
  also have "(2::nat) ^ bit_length m \<le> 2 ^ (24 + (bit_length m - 24))"
    by (rule power_increasing) auto
  finally have "m < 2 ^ 24 * 2 ^ (bit_length m - 24)" by (simp add: power_add)
  then show ?thesis by (simp add: less_mult_imp_div_less)
qed

lemma mantissa_ge:
  assumes "24 < bit_length m"
  shows "2 ^ 23 \<le> m div 2 ^ (bit_length m - 24)"
proof -
  define k where "k = bit_length m - 24"
  from assms have m: "0 < m" by (cases "m = 0") (auto simp: bit_length.simps [of 0])
  from assms have "bit_length m - 1 = 23 + k" by (simp add: k_def)
  with bit_length_ge [OF m] have "(2::nat) ^ (23 + k) \<le> m" by simp
  then have "(2::nat) ^ 23 * 2 ^ k \<le> m" by (simp only: power_add)
  moreover have "(0::nat) < 2 ^ k" by simp
  ultimately have "(2::nat) ^ 23 \<le> m div 2 ^ k"
    by (simp only: less_eq_div_iff_mult_less_eq)
  then show ?thesis by (simp only: k_def)
qed

lemma round_step_mono:
  fixes P q rm rn :: nat
  assumes "rm \<le> rn"
  shows "(if P < 2 * rm \<or> (2 * rm = P \<and> odd q) then (q + 1) * P else q * P)
       \<le> (if P < 2 * rn \<or> (2 * rn = P \<and> odd q) then (q + 1) * P else q * P)"
  using assms by auto

lemma round_to_float_mono:
  assumes "m \<le> n"
  shows "round_to_float m \<le> round_to_float n"
proof -
  let ?km = "bit_length m - 24" and ?kn = "bit_length n - 24"
  let ?qm = "m div 2 ^ ?km" and ?qn = "n div 2 ^ ?kn"
  from assms have k: "?km \<le> ?kn" using bit_length_mono [of m n] by simp
  show ?thesis
  proof (cases "?km = ?kn")
    case True
    from assms have q: "?qm \<le> ?qn" unfolding True by (rule div_le_mono)
    show ?thesis
    proof (cases "?qm = ?qn")
      case eq: True
      define k where "k = ?kn"
      define q where "q = ?qn"
      have km: "?km = k" and qm: "?qm = q" using eq True by (simp_all add: k_def q_def)
      have "?qm * 2 ^ ?km + m mod 2 ^ ?km = m" by (rule div_mult_mod_eq)
      moreover have mq: "m div 2 ^ k = q" using qm km by simp
      moreover have nq: "n div 2 ^ k = q" by (simp add: q_def k_def)
      ultimately have 1: "q * 2 ^ k + m mod 2 ^ k = m" using km by simp
      have "?qn * 2 ^ ?kn + n mod 2 ^ ?kn = n" by (rule div_mult_mod_eq)
      then have 2: "q * 2 ^ k + n mod 2 ^ k = n" by (simp add: q_def k_def)
      from 1 2 assms have "m mod 2 ^ k \<le> n mod 2 ^ k" by linarith
      from round_step_mono [OF this, of "2 ^ k" q]
      have "(if 2 ^ k < 2 * (m mod 2 ^ k) \<or> 2 * (m mod 2 ^ k) = 2 ^ k \<and> odd q
              then (q + 1) * 2 ^ k else q * 2 ^ k)
          \<le> (if 2 ^ k < 2 * (n mod 2 ^ k) \<or> 2 * (n mod 2 ^ k) = 2 ^ k \<and> odd q
              then (q + 1) * 2 ^ k else q * 2 ^ k)" .
      moreover have "round_to_float m =
          (if 2 ^ k < 2 * (m mod 2 ^ k) \<or> 2 * (m mod 2 ^ k) = 2 ^ k \<and> odd q
              then (q + 1) * 2 ^ k else q * 2 ^ k)"
        unfolding round_to_float_def Let_def km mq ..
      moreover have "round_to_float n =
          (if 2 ^ k < 2 * (n mod 2 ^ k) \<or> 2 * (n mod 2 ^ k) = 2 ^ k \<and> odd q
              then (q + 1) * 2 ^ k else q * 2 ^ k)"
        unfolding round_to_float_def Let_def k_def [symmetric] nq ..
      ultimately show ?thesis by simp
    next
      case False
      with q have "?qm + 1 \<le> ?qn" by simp
      then have "(?qm + 1) * 2 ^ ?km \<le> ?qn * 2 ^ ?kn" unfolding True by (rule mult_le_mono1)
      with round_to_float_bounds(2) [of m] round_to_float_bounds(1) [of n]
      show ?thesis by linarith
    qed
  next
    case False
    with k have lt: "?km < ?kn" by simp
    then have bn: "24 < bit_length n" by simp
    have "round_to_float m \<le> (?qm + 1) * 2 ^ ?km" by (rule round_to_float_bounds)
    also have "\<dots> \<le> 2 ^ 24 * 2 ^ ?km"
      using mantissa_less [of m] by (intro mult_le_mono1) simp
    also have "\<dots> = 2 ^ 23 * 2 ^ (Suc ?km)" by simp
    also have "\<dots> \<le> 2 ^ 23 * 2 ^ ?kn"
      using lt by (intro mult_le_mono2 power_increasing) auto
    also have "\<dots> \<le> ?qn * 2 ^ ?kn"
      using mantissa_ge [OF bn] by (intro mult_le_mono1)
    also have "\<dots> \<le> round_to_float n" by (rule round_to_float_bounds)
    finally show ?thesis .
  qed
qed

text \<open>The product is the exact \<open>3 * c / 2\<close> while \<open>3 * c\<close> has 24 digits, and no \<open>int\<close>
  holds it from \<open>c = 1431655745\<close> on.\<close>

lemma round_to_float_exact: "m < 2 ^ 24 \<Longrightarrow> round_to_float m = m"
proof -
  assume m: "m < 2 ^ 24"
  have "bit_length m \<le> 24"
  proof (rule ccontr)
    assume "\<not> bit_length m \<le> 24"
    then have b: "24 \<le> bit_length m - 1" by simp
    then have "0 < m" by (cases "m = 0") (auto simp: bit_length.simps [of 0])
    from bit_length_ge [OF this] have "2 ^ (bit_length m - 1) \<le> m" .
    moreover have "(2::nat) ^ 24 \<le> 2 ^ (bit_length m - 1)"
      using b by (intro power_increasing) auto
    ultimately show False using m by linarith
  qed
  then show ?thesis by (simp add: round_to_float_def)
qed

lemma product_defined:
  assumes "c \<le> 1431655744"
  shows "round_to_float (3 * round_to_float c) < 2 ^ 32"
proof -
  have "round_to_float c \<le> round_to_float 1431655744" using assms by (rule round_to_float_mono)
  also have "\<dots> = 1431655680" by (simp add: round_to_float_def bit_length.simps)
  finally have "3 * round_to_float c \<le> 4294967040" by simp
  then have "round_to_float (3 * round_to_float c) \<le> round_to_float 4294967040"
    by (rule round_to_float_mono)
  also have "\<dots> = 4294967040" by (simp add: round_to_float_def bit_length.simps)
  finally show ?thesis by simp
qed


subsection \<open>Memory for strings\<close>

text \<open>A \<open>char *\<close> is an address; \<open>NULL\<close> is address 0. The memory maps the address of
  every live string (heap block, literal or buffer of the caller) to its characters up to
  the terminator. \<open>FTGC_MALLOC\<close> is given the allocator's answer: \<open>None\<close> when it has no
  memory, \<open>Some a\<close> when it returns the block at \<open>a\<close>. An allocator never returns \<open>NULL\<close>
  or a live block as a new block, so such an answer counts as no memory.\<close>

type_synonym addr = nat

type_synonym memory = "addr \<rightharpoonup> string"

definition NULL :: addr where
  "NULL = 0"

definition FTGC_MALLOC :: "memory \<Rightarrow> addr option \<Rightarrow> addr" where
  "FTGC_MALLOC mem answer =
     (case answer of
        None \<Rightarrow> NULL
      | Some a \<Rightarrow> if a \<noteq> NULL \<and> mem a = None then a else NULL)"

definition FTGC_FREE :: "memory \<Rightarrow> addr \<Rightarrow> memory" where
  "FTGC_FREE mem p = mem(p := None)"

subsection \<open>Variant\<close>

datatype ftgc_variant_type_t =
    FTGC_VARTYPE_VOID
  | FTGC_VARTYPE_VOIDPTR
  | FTGC_VARTYPE_BOOL
  | FTGC_VARTYPE_SINT32
  | FTGC_VARTYPE_UINT32
  | FTGC_VARTYPE_FLOAT
  | FTGC_VARTYPE_VEC2
  | FTGC_VARTYPE_VEC3
  | FTGC_VARTYPE_STRING

text \<open>Of the union, the member \<open>val_str\<close>: the other members share its bytes and are
  written by setters that no property below calls.\<close>

record ftgc_variant_s =
  external_storage :: addr
  internal_storage :: addr
  field_type :: ftgc_variant_type_t

definition FTGC__VARIANT_ZERO :: "ftgc_variant_s \<Rightarrow> ftgc_variant_s" where
  "FTGC__VARIANT_ZERO x = x\<lparr>internal_storage := NULL, external_storage := NULL\<rparr>"

text \<open>\<open>FTGC__VARIANT_CLEAR\<close> frees the owned buffer of a string variant. Freeing a block
  that is not live is an error.\<close>

definition FTGC__VARIANT_CLEAR ::
  "ftgc_variant_s \<Rightarrow> memory \<Rightarrow> error + (ftgc_variant_s \<times> memory)" where
  "FTGC__VARIANT_CLEAR x mem =
     (if field_type x = FTGC_VARTYPE_STRING \<and> internal_storage x \<noteq> NULL
      then (if mem (internal_storage x) = None then Inl InvalidPointer
            else Inr ((FTGC__VARIANT_ZERO x)\<lparr>field_type := FTGC_VARTYPE_VOID\<rparr>,
                      FTGC_FREE mem (internal_storage x)))
      else Inr ((FTGC__VARIANT_ZERO x)\<lparr>field_type := FTGC_VARTYPE_VOID\<rparr>, mem))"

definition ftgc_variant_init :: "ftgc_variant_s \<Rightarrow> ftgc_variant_s" where
  "ftgc_variant_init ctx = (FTGC__VARIANT_ZERO ctx)\<lparr>field_type := FTGC_VARTYPE_VOID\<rparr>"

definition ftgc_variant_free ::
  "ftgc_variant_s \<Rightarrow> memory \<Rightarrow> error + (ftgc_variant_s \<times> memory)" where
  "ftgc_variant_free ctx mem =
     (if field_type ctx = FTGC_VARTYPE_STRING \<and> internal_storage ctx \<noteq> NULL
      then (if mem (internal_storage ctx) = None then Inl InvalidPointer
            else Inr (ftgc_variant_init ctx, FTGC_FREE mem (internal_storage ctx)))
      else Inr (ftgc_variant_init ctx, mem))"

text \<open>\<open>ftgc_variant_set_string\<close>: the return value, the variant and the memory after the
  call. The type is set to string before the allocation, and \<open>strlen(str)\<close> reads \<open>str\<close>
  after the old buffer was freed.\<close>

definition ftgc_variant_set_string ::
  "ftgc_variant_s \<Rightarrow> memory \<Rightarrow> addr \<Rightarrow> addr option \<Rightarrow> error + (int \<times> ftgc_variant_s \<times> memory)" where
  "ftgc_variant_set_string ctx mem str answer =
     (case FTGC__VARIANT_CLEAR ctx mem of
        Inl e \<Rightarrow> Inl e
      | Inr (c0, m) \<Rightarrow>
          (let c1 = c0\<lparr>field_type := FTGC_VARTYPE_STRING\<rparr> in
           case m str of
             None \<Rightarrow> Inl InvalidPointer
           | Some s \<Rightarrow>
               (let c2 = c1\<lparr>internal_storage := FTGC_MALLOC m answer\<rparr> in
                if internal_storage c2 = NULL then Inr (0, c2, m)
                else Inr (1, c2, m(internal_storage c2 \<mapsto> s)))))"

definition ftgc_variant_set_string_ptr ::
  "ftgc_variant_s \<Rightarrow> memory \<Rightarrow> addr \<Rightarrow> error + (ftgc_variant_s \<times> memory)" where
  "ftgc_variant_set_string_ptr ctx mem p_str =
     (case FTGC__VARIANT_CLEAR ctx mem of
        Inl e \<Rightarrow> Inl e
      | Inr (c0, m) \<Rightarrow>
          Inr (c0\<lparr>field_type := FTGC_VARTYPE_STRING,
                   external_storage := p_str, internal_storage := NULL\<rparr>, m))"

definition ftgc_variant_get_string_pre :: "ftgc_variant_s \<Rightarrow> bool" where
  "ftgc_variant_get_string_pre ctx = (field_type ctx = FTGC_VARTYPE_STRING)"

definition ftgc_variant_get_string :: "ftgc_variant_s \<Rightarrow> addr" where
  "ftgc_variant_get_string ctx =
     (if external_storage ctx \<noteq> NULL then external_storage ctx else internal_storage ctx)"

text \<open>What \<open>FTGC__VARIANT_CLEAR\<close>, \<open>FTGC_MALLOC\<close> and \<open>ftgc_variant_set_string\<close> return.\<close>

lemmas variant_eval = ftgc_variant_set_string_def ftgc_variant_set_string_ptr_def
  FTGC__VARIANT_CLEAR_def FTGC__VARIANT_ZERO_def FTGC_MALLOC_def FTGC_FREE_def
  ftgc_variant_get_string_def ftgc_variant_get_string_pre_def ftgc_variant_init_def NULL_def Let_def

lemma variant_clear_result:
  assumes "FTGC__VARIANT_CLEAR x mem = Inr (c0, m)"
  shows "c0 = x\<lparr>internal_storage := NULL, external_storage := NULL, field_type := FTGC_VARTYPE_VOID\<rparr>"
    and "m = (if field_type x = FTGC_VARTYPE_STRING \<and> internal_storage x \<noteq> NULL
              then mem(internal_storage x := None) else mem)"
    and "field_type x = FTGC_VARTYPE_STRING \<and> internal_storage x \<noteq> NULL \<longrightarrow>
           mem (internal_storage x) \<noteq> None"
  using assms by (auto simp: FTGC__VARIANT_CLEAR_def FTGC__VARIANT_ZERO_def FTGC_FREE_def split: if_splits)


lemma set_string_result:
  assumes "ftgc_variant_set_string ctx mem str answer = Inr (r, ctx', mem')"
  obtains c0 m s where "FTGC__VARIANT_CLEAR ctx mem = Inr (c0, m)" and "m str = Some s"
    and "ctx' = c0\<lparr>field_type := FTGC_VARTYPE_STRING, internal_storage := FTGC_MALLOC m answer\<rparr>"
    and "r = (if FTGC_MALLOC m answer = NULL then 0 else 1)"
    and "mem' = (if FTGC_MALLOC m answer = NULL then m else m(FTGC_MALLOC m answer \<mapsto> s))"
proof -
  from assms obtain c0 m where c: "FTGC__VARIANT_CLEAR ctx mem = Inr (c0, m)"
    by (auto simp: ftgc_variant_set_string_def split: sum.splits)
  with assms obtain s where s: "m str = Some s"
    by (auto simp: ftgc_variant_set_string_def Let_def split: option.splits)
  from assms c s show ?thesis
    by (intro that [of c0 m s]) (auto simp: ftgc_variant_set_string_def Let_def split: if_splits)
qed


subsection \<open>Dictionary: data\<close>

definition FTGC_DICT_KEY_BYTES :: nat where
  "FTGC_DICT_KEY_BYTES = 9"

text \<open>\<open>pairs.keys\<close> is a block of \<open>dict_size\<close> buffers of \<open>FTGC_DICT_KEY_BYTES\<close> bytes.
  A buffer is \<open>Some s\<close> when it holds the characters \<open>s\<close> and their terminator, and
  \<open>None\<close> while it holds what \<open>FTGC_MALLOC\<close> or \<open>FTGC_REALLOC\<close> left there; reading
  such a buffer is an error. A key argument \<open>const char *key\<close> is the string it points
  to; where a list holds the character \<open>NUL\<close> the C string ends there.

  \<open>keys_ptr\<close> says what the pointer \<open>pairs.keys\<close> points to: nothing (\<open>NULL\<close>), the block
  \<open>keys\<close>, or a block that \<open>FTGC_REALLOC\<close> has released, which
  \<open>ftgc__dict_reallocate\<close> can leave there. Only a live block can be read and written.

  \<open>FTGC_REALLOC\<close> of the key block answers \<open>NULL\<close>, the pointer it was given (the block
  grew in place) or another pointer (the contents were moved and the old block released).\<close>

datatype pointer_state = Ptr_NULL | Ptr_Live | Ptr_Released

datatype realloc_answer = Realloc_NULL | Realloc_Same | Realloc_Moved

record ftgc__dict_pairs_s =
  keys :: "string option list"
  keys_ptr :: pointer_state
  vals :: "ftgc_variant_s list"

record ftgc_dict_s =
  dict_size :: int
  num_pairs :: int
  pairs :: ftgc__dict_pairs_s
  hash_index :: ftgc_hashindex_s

subsection \<open>Dictionary: hashing and comparing keys\<close>

text \<open>\<open>(ftgc_uint32)*p\<close>: \<open>char\<close> is signed on the platform the repository builds for, so
  the conversion extends the sign.\<close>

definition char_to_uint32 :: "char \<Rightarrow> 32 word" where
  "char_to_uint32 c = scast (of_char c :: 8 word)"

definition ftgc__hash_step :: "32 word \<Rightarrow> char \<Rightarrow> 32 word" where
  "ftgc__hash_step hash0 c =
     (let hash = push_bit 4 hash0 + char_to_uint32 c;
          x = hash AND 0xF0000000;
          hash = (if x \<noteq> 0 then hash XOR drop_bit 24 x else hash)
      in hash AND NOT x)"

fun ftgc__hash_loop :: "string \<Rightarrow> 32 word \<Rightarrow> 32 word" where
  "ftgc__hash_loop [] hash = hash"
| "ftgc__hash_loop (c # cs) hash =
     (if c = CHR 0x00 then hash else ftgc__hash_loop cs (ftgc__hash_step hash c))"

definition ftgc_hashindex_generate_key_string :: "ftgc_hashindex_s \<Rightarrow> string \<Rightarrow> ftgc_hashkey_t" where
  "ftgc_hashindex_generate_key_string ctx str =
     sint (ftgc__hash_loop str 0 AND word_of_int (hash_mask ctx))"

text \<open>\<open>tolower\<close> of the C locale, on the value of a signed \<open>char\<close>.\<close>

definition c_tolower :: "char \<Rightarrow> int" where
  "c_tolower c =
     (let n = sint (of_char c :: 8 word) in if 65 \<le> n \<and> n \<le> 90 then n + 32 else n)"

text \<open>\<open>ftgc__keycmp\<close> with \<open>FTGC_DICT_CASE_SENSITIVE\<close> 0. The end of a list is the
  terminator, whose \<open>tolower\<close> is 0.\<close>

fun ftgc__keycmp :: "string \<Rightarrow> string \<Rightarrow> int" where
  "ftgc__keycmp [] [] = 0"
| "ftgc__keycmp [] (y # ys) = 0 - c_tolower y"
| "ftgc__keycmp (x # xs) [] = c_tolower x - 0"
| "ftgc__keycmp (x # xs) (y # ys) =
     (let result = c_tolower x - c_tolower y in
      if result \<noteq> 0 then result
      else if x = CHR 0x00 then result
      else ftgc__keycmp xs ys)"

definition ftgc__dict_set_key_pre :: "string \<Rightarrow> bool" where
  "ftgc__dict_set_key_pre src = (case src of [] \<Rightarrow> False | c # cs \<Rightarrow> c \<noteq> CHR 0x00)"

text \<open>The characters \<open>ftgc__dict_set_key\<close> writes before the terminator.\<close>

fun ftgc__dict_set_key_loop :: "string \<Rightarrow> nat \<Rightarrow> string" where
  "ftgc__dict_set_key_loop [] i = []"
| "ftgc__dict_set_key_loop (c # cs) i =
     (if c \<noteq> CHR 0x00 \<and> i < FTGC_DICT_KEY_BYTES - 1 then c # ftgc__dict_set_key_loop cs (Suc i)
      else [])"

definition ftgc__dict_set_key :: "string \<Rightarrow> string" where
  "ftgc__dict_set_key src = ftgc__dict_set_key_loop src 0"

subsection \<open>Dictionary: operations\<close>

text \<open>Reading the key buffer of slot \<open>i\<close>, \<open>&ctx->pairs.keys[i*FTGC_DICT_KEY_BYTES]\<close>.\<close>

definition dict_key_at :: "ftgc_dict_s \<Rightarrow> int \<Rightarrow> error + string" where
  "dict_key_at ctx i =
     (case keys_ptr (pairs ctx) of
        Ptr_NULL \<Rightarrow> Inl NullDereference
      | Ptr_Released \<Rightarrow> Inl InvalidPointer
      | Ptr_Live \<Rightarrow>
          if i < 0 \<or> length (keys (pairs ctx)) \<le> nat i then Inl OutOfBounds
          else case keys (pairs ctx) ! nat i of
                 None \<Rightarrow> Inl UninitializedRead
               | Some s \<Rightarrow> Inr s)"

definition ftgc_dict_init_pre :: "int \<Rightarrow> int \<Rightarrow> bool" where
  "ftgc_dict_init_pre size0 hash_size = (size0 \<ge> hash_size)"

text \<open>\<open>ftgc_dict_init\<close> checks none of its allocations. (\<open>size0\<close> is the parameter \<open>size\<close>.) The hash index is made for
  \<open>dict_size\<close> cells, whatever \<open>hash_size\<close> is. The loop over the variants writes through
  \<open>pairs.values\<close>, which is an error when that allocation failed.\<close>

definition ftgc_dict_init ::
  "int \<Rightarrow> int \<Rightarrow> bool \<Rightarrow> bool \<Rightarrow> bool \<Rightarrow> bool \<Rightarrow> error + ftgc_dict_s" where
  "ftgc_dict_init size0 hash_size table_ok chain_ok keys_ok values_ok =
     (let hi = snd (ftgc_hashindex_init size0 table_ok chain_ok);
          ks = (if keys_ok then replicate (nat size0) None else []);
          void = \<lparr>external_storage = NULL, internal_storage = NULL, field_type = FTGC_VARTYPE_VOID\<rparr>
      in if \<not> values_ok \<and> 0 < size0 then Inl NullDereference
         else Inr \<lparr> dict_size = size0, num_pairs = 0,
                    pairs = \<lparr> keys = ks,
                              keys_ptr = (if keys_ok then Ptr_Live else Ptr_NULL),
                              vals = replicate (nat size0) (ftgc_variant_init void) \<rparr>,
                    hash_index = hi \<rparr>)"

text \<open>The loop of \<open>ftgc__dict_find_index_for_key\<close>, from the value \<open>i\<close> the iterator
  returned last. It ends for the reason the caller's loop of the hash index ends.\<close>

function ftgc__dict_find_loop ::
  "ftgc_dict_s \<Rightarrow> string \<Rightarrow> ftgc_hashindex_iter_s \<Rightarrow> int \<Rightarrow> error + int" where
  "ftgc__dict_find_loop ctx key iter i =
     (if i = FTGC_HASHINDEX_UNUSED then Inr FTGC_HASHINDEX_UNUSED
      else if i = FTGC_HASHINDEX_DELETED then
        (case ftgc_hashindex_iter_get_next (hash_index ctx) iter of
           Inl e \<Rightarrow> Inl e
         | Inr (i', iter') \<Rightarrow> ftgc__dict_find_loop ctx key iter' i')
      else
        (case dict_key_at ctx i of
           Inl e \<Rightarrow> Inl e
         | Inr k \<Rightarrow>
             if ftgc__keycmp key k = 0 then Inr i
             else (case ftgc_hashindex_iter_get_next (hash_index ctx) iter of
                     Inl e \<Rightarrow> Inl e
                   | Inr (i', iter') \<Rightarrow> ftgc__dict_find_loop ctx key iter' i')))"
  by pat_completeness auto
termination
proof (relation "measure (\<lambda>(ctx, key, iter, i).
          if i = FTGC_HASHINDEX_UNUSED then 0 else Suc (iter_remaining (hash_index ctx) iter))")
  show "wf (measure (\<lambda>(ctx, key, iter, i).
          if i = FTGC_HASHINDEX_UNUSED then 0 else Suc (iter_remaining (hash_index ctx) iter)))"
    by simp
next
  fix ctx :: ftgc_dict_s and key :: string and iter i x2 x y
  assume "i \<noteq> FTGC_HASHINDEX_UNUSED"
    and "ftgc_hashindex_iter_get_next (hash_index ctx) iter = Inr x2" and "(x, y) = x2"
  then have "ftgc_hashindex_iter_get_next (hash_index ctx) iter = Inr (x, y)" by simp
  from get_next_advances [OF this] \<open>i \<noteq> FTGC_HASHINDEX_UNUSED\<close>
  show "((ctx, key, y, x), ctx, key, iter, i) \<in> measure (\<lambda>(ctx, key, iter, i).
          if i = FTGC_HASHINDEX_UNUSED then 0 else Suc (iter_remaining (hash_index ctx) iter))"
    by auto
next
  fix ctx :: ftgc_dict_s and key :: string and iter i x2 x2a x y
  assume "i \<noteq> FTGC_HASHINDEX_UNUSED"
    and "ftgc_hashindex_iter_get_next (hash_index ctx) iter = Inr x2a" and "(x, y) = x2a"
  then have "ftgc_hashindex_iter_get_next (hash_index ctx) iter = Inr (x, y)" by simp
  from get_next_advances [OF this] \<open>i \<noteq> FTGC_HASHINDEX_UNUSED\<close>
  show "((ctx, key, y, x), ctx, key, iter, i) \<in> measure (\<lambda>(ctx, key, iter, i).
          if i = FTGC_HASHINDEX_UNUSED then 0 else Suc (iter_remaining (hash_index ctx) iter))"
    by auto
qed

declare ftgc__dict_find_loop.simps [simp del]

definition ftgc__dict_find_index_for_key :: "ftgc_dict_s \<Rightarrow> string \<Rightarrow> error + int" where
  "ftgc__dict_find_index_for_key ctx key =
     (let hash = ftgc_hashindex_generate_key_string (hash_index ctx) key in
      case ftgc_hashindex_iter_get_first (hash_index ctx) hash of
        Inl e \<Rightarrow> Inl e
      | Inr (i, iter) \<Rightarrow> ftgc__dict_find_loop ctx key iter i)"

definition ftgc__dict_reallocate_pre :: "ftgc_dict_s \<Rightarrow> int \<Rightarrow> bool" where
  "ftgc__dict_reallocate_pre ctx new_size = (dict_size ctx < new_size)"

text \<open>\<open>ftgc__dict_reallocate\<close>: \<open>FTGC_REALLOC\<close> keeps the old contents; the new key
  buffers hold nothing yet, and the loop initialises the variants from \<open>dict_size\<close> on,
  which are the new ones as long as \<open>dict_size\<close> is the number of variants.

  The new pointers are stored only after both reallocations succeeded. When the first
  succeeded and the second fails, the function returns 0 with \<open>pairs.keys\<close> as it was: the
  block has grown in place, or the pointer is left pointing to the block that was released
  (a \<open>NULL\<close> pointer stays \<open>NULL\<close>, and the same pointer as answer is then the answer
  \<open>NULL\<close>). Reallocating through a released pointer is an error.\<close>

definition ftgc__dict_reallocate ::
  "ftgc_dict_s \<Rightarrow> int \<Rightarrow> realloc_answer \<Rightarrow> bool \<Rightarrow> error + (int \<times> ftgc_dict_s)" where
  "ftgc__dict_reallocate ctx new_size keys_answer values_ok =
     (if keys_ptr (pairs ctx) = Ptr_Released then Inl InvalidPointer
      else if keys_answer = Realloc_NULL \<or>
              (keys_ptr (pairs ctx) = Ptr_NULL \<and> keys_answer = Realloc_Same)
        then Inr (0, ctx)
      else
        (let void = \<lparr>external_storage = NULL, internal_storage = NULL, field_type = FTGC_VARTYPE_VOID\<rparr>;
             new_keys = take (nat new_size) (keys (pairs ctx)) @
                        replicate (nat new_size - length (keys (pairs ctx))) None;
             new_values = take (nat new_size) (vals (pairs ctx)) @
                          replicate (nat new_size - length (vals (pairs ctx))) (ftgc_variant_init void)
         in if \<not> values_ok then
              Inr (0, if keys_ptr (pairs ctx) = Ptr_NULL then ctx
                      else if keys_answer = Realloc_Same
                        then ctx\<lparr>pairs := (pairs ctx)\<lparr>keys := new_keys\<rparr>\<rparr>
                        else ctx\<lparr>pairs := (pairs ctx)\<lparr>keys_ptr := Ptr_Released\<rparr>\<rparr>)
            else
              Inr (1, ctx\<lparr>pairs := \<lparr> keys = new_keys, keys_ptr = Ptr_Live, vals = new_values \<rparr>,
                         dict_size := new_size\<rparr>)))"

text \<open>The loop of \<open>ftgc__dict_find_empty_slot\<close>, with \<open>n\<close> slots still to look at from
  slot \<open>i\<close> on: the first slot whose key buffer starts with the terminator.\<close>

fun ftgc__dict_scan_empty :: "ftgc_dict_s \<Rightarrow> nat \<Rightarrow> nat \<Rightarrow> error + nat option" where
  "ftgc__dict_scan_empty ctx 0 i = Inr None"
| "ftgc__dict_scan_empty ctx (Suc n) i =
     (case dict_key_at ctx (int i) of
        Inl e \<Rightarrow> Inl e
      | Inr s \<Rightarrow>
          if (case s of [] \<Rightarrow> True | c # cs \<Rightarrow> c = CHR 0x00) then Inr (Some i)
          else ftgc__dict_scan_empty ctx n (Suc i))"

definition ftgc__dict_find_empty_slot :: "ftgc_dict_s \<Rightarrow> error + (int \<times> ftgc_dict_s)" where
  "ftgc__dict_find_empty_slot ctx =
     (case ftgc__dict_scan_empty ctx (nat (num_pairs ctx)) 0 of
        Inl e \<Rightarrow> Inl e
      | Inr (Some i) \<Rightarrow> Inr (int i, ctx)
      | Inr None \<Rightarrow> Inr (num_pairs ctx + 1 - 1, ctx\<lparr>num_pairs := num_pairs ctx + 1\<rparr>))"

definition ftgc_dict_set_string_pre :: "string \<Rightarrow> addr \<Rightarrow> bool" where
  "ftgc_dict_set_string_pre key value = (value \<noteq> NULL)"

text \<open>The first half of \<open>ftgc_dict_set_string\<close>: the slot to write, and the dictionary
  after \<open>ftgc__dict_reallocate\<close> and \<open>ftgc__dict_find_empty_slot\<close>. The slot \<open>None\<close> is
  the \<open>return 0\<close> after a failed \<open>ftgc__dict_reallocate\<close>.\<close>

definition ftgc__dict_set_string_target ::
  "ftgc_dict_s \<Rightarrow> string \<Rightarrow> realloc_answer \<Rightarrow> bool \<Rightarrow> error + (int option \<times> ftgc_dict_s)" where
  "ftgc__dict_set_string_target ctx key keys_answer values_ok =
     (case ftgc__dict_find_index_for_key ctx key of
        Inl e \<Rightarrow> Inl e
      | Inr index \<Rightarrow>
          if index = FTGC_HASHINDEX_UNUSED then
            (case (if num_pairs ctx = dict_size ctx
                   then ftgc__dict_reallocate ctx (dict_size ctx + int FTGC_DICT_KEY_BYTES)
                          keys_answer values_ok
                   else Inr (1, ctx)) of
               Inl e \<Rightarrow> Inl e
             | Inr (r, ctx1) \<Rightarrow>
                 if r = 0 then Inr (None, ctx1)
                 else (case ftgc__dict_find_empty_slot ctx1 of
                         Inl e \<Rightarrow> Inl e
                       | Inr (t, ctx2) \<Rightarrow> Inr (Some t, ctx2)))
          else Inr (Some index, ctx))"

text \<open>The second half: the key, the value and the hash index. The result of
  \<open>ftgc_variant_set_string\<close> is not looked at.\<close>

definition ftgc__dict_set_string_store ::
  "ftgc_dict_s \<Rightarrow> memory \<Rightarrow> string \<Rightarrow> addr \<Rightarrow> int \<Rightarrow> addr option \<Rightarrow> bool
     \<Rightarrow> error + (int \<times> ftgc_dict_s \<times> memory)" where
  "ftgc__dict_set_string_store ctx mem key value target answer node_ok =
     (if keys_ptr (pairs ctx) = Ptr_NULL then Inl NullDereference
      else if keys_ptr (pairs ctx) = Ptr_Released then Inl InvalidPointer
      else if target < 0 \<or> length (keys (pairs ctx)) \<le> nat target then Inl OutOfBounds
      else if length (vals (pairs ctx)) \<le> nat target then Inl OutOfBounds
      else
        (case ftgc_variant_set_string (vals (pairs ctx) ! nat target) mem value answer of
           Inl e \<Rightarrow> Inl e
         | Inr (copied, v, mem') \<Rightarrow>
             (let ctx1 = ctx\<lparr>pairs := (pairs ctx)
                           \<lparr> keys := (keys (pairs ctx))[nat target := Some (ftgc__dict_set_key key)],
                             vals := (vals (pairs ctx))[nat target := v] \<rparr>\<rparr>;
                  hash = ftgc_hashindex_generate_key_string (hash_index ctx1) key
              in case ftgc_hashindex_add_key (hash_index ctx1) hash target node_ok of
                   Inl e \<Rightarrow> Inl e
                 | Inr (r, hi) \<Rightarrow>
                     if r = -1 then Inr (0, ctx1\<lparr>hash_index := hi\<rparr>, mem')
                     else Inr (1, ctx1\<lparr>hash_index := hi\<rparr>, mem'))))"

text \<open>\<open>ftgc_dict_set_string\<close>: the return value, the dictionary and the memory after the
  call. The four last arguments are the outcomes of the allocations the call can make:
  the two of \<open>ftgc__dict_reallocate\<close>, the one of \<open>ftgc_variant_set_string\<close> and the one
  of \<open>ftgc__append_node\<close>.\<close>

definition ftgc_dict_set_string ::
  "ftgc_dict_s \<Rightarrow> memory \<Rightarrow> string \<Rightarrow> addr \<Rightarrow> realloc_answer \<Rightarrow> bool \<Rightarrow> addr option \<Rightarrow> bool
     \<Rightarrow> error + (int \<times> ftgc_dict_s \<times> memory)" where
  "ftgc_dict_set_string ctx mem key value keys_answer values_ok answer node_ok =
     (case ftgc__dict_set_string_target ctx key keys_answer values_ok of
        Inl e \<Rightarrow> Inl e
      | Inr (None, ctx1) \<Rightarrow> Inr (0, ctx1, mem)
      | Inr (Some target, ctx1) \<Rightarrow>
          ftgc__dict_set_string_store ctx1 mem key value target answer node_ok)"

definition ftgc_dict_get_string :: "ftgc_dict_s \<Rightarrow> string \<Rightarrow> addr \<Rightarrow> error + addr" where
  "ftgc_dict_get_string ctx key fallback_string =
     (case ftgc__dict_find_index_for_key ctx key of
        Inl e \<Rightarrow> Inl e
      | Inr index \<Rightarrow>
          if index \<noteq> FTGC_HASHINDEX_UNUSED then
            (if index < 0 \<or> length (vals (pairs ctx)) \<le> nat index then Inl OutOfBounds
             else Inr (ftgc_variant_get_string (vals (pairs ctx) ! nat index)))
          else Inr fallback_string)"


subsection \<open>Dictionary: keys as C strings\<close>

definition c_string :: "string \<Rightarrow> bool" where
  "c_string s = (CHR 0x00 \<notin> set s)"

lemma sint_small:
  fixes x :: "32 word"
  assumes "uint x < 2 ^ 31"
  shows "sint x = uint x"
proof -
  have "signed_take_bit 31 (uint x) = uint x"
    using assms by (intro signed_take_bit_int_eq_self) (auto intro: order_trans [of _ 0])
  then show ?thesis by (simp add: sint_uint)
qed

lemma hash_mask_range:
  fixes w :: "32 word"
  assumes "0 \<le> m" and "m < 2 ^ 31"
  shows "0 \<le> sint (w AND word_of_int m) \<and> sint (w AND word_of_int m) \<le> m"
proof -
  have um: "uint (word_of_int m :: 32 word) = m"
    using assms by (simp add: uint_word_of_int take_bit_int_eq_self)
  have u: "uint (w AND word_of_int m) = uint w AND m"
    by (simp add: uint_and um)
  have le: "uint w AND m \<le> m" using assms(1) by simp
  have ge: "0 \<le> uint w AND m" using assms(1) by simp
  have "sint (w AND word_of_int m) = uint (w AND word_of_int m)"
    using u le assms(2) by (intro sint_small) simp
  with u le ge show ?thesis by simp
qed

lemma of_char_8_zero: "(of_char c :: 8 word) = 0 \<longleftrightarrow> c = CHR 0x00"
proof
  assume "(of_char c :: 8 word) = 0"
  then have "unat (of_nat (of_char c) :: 8 word) = 0" by (simp add: of_nat_of_char)
  then have "(of_char c :: nat) mod 256 = 0" by (simp add: unat_of_nat)
  then have "(of_char c :: nat) = of_char (CHR 0x00)" by simp
  then show "c = CHR 0x00" by (simp only: of_char_eq_iff)
qed simp

lemma c_tolower_zero: "c_tolower c = 0 \<longleftrightarrow> c = CHR 0x00"
  by (auto simp: c_tolower_def Let_def signed_eq_0_iff of_char_8_zero)

lemma keycmp_refl: "ftgc__keycmp s s = 0"
  by (induction s) (auto simp: Let_def)

lemma keycmp_zero_length:
  "c_string a \<Longrightarrow> c_string b \<Longrightarrow> ftgc__keycmp a b = 0 \<Longrightarrow> length a = length b"
  by (induction a b rule: ftgc__keycmp.induct)
     (auto simp: c_string_def c_tolower_zero Let_def split: if_splits)

lemma set_key_loop_take:
  "c_string s \<Longrightarrow> ftgc__dict_set_key_loop s i = take (FTGC_DICT_KEY_BYTES - 1 - i) s"
proof (induction s arbitrary: i)
  case Nil
  then show ?case by simp
next
  case (Cons c cs)
  then have "c \<noteq> CHR 0x00" "c_string cs" by (auto simp: c_string_def)
  with Cons.IH [of "Suc i"] show ?case
    by (cases "i < FTGC_DICT_KEY_BYTES - 1") (auto simp: take_Cons' FTGC_DICT_KEY_BYTES_def)
qed

lemma set_key_take:
  "c_string s \<Longrightarrow> ftgc__dict_set_key s = take (FTGC_DICT_KEY_BYTES - 1) s"
  by (simp add: ftgc__dict_set_key_def set_key_loop_take)

lemma set_key_stored:
  assumes "c_string s" and "s \<noteq> []"
  shows "ftgc__dict_set_key s \<noteq> []" and "length (ftgc__dict_set_key s) < FTGC_DICT_KEY_BYTES"
    and "c_string (ftgc__dict_set_key s)"
  using assms
  by (auto simp: set_key_take FTGC_DICT_KEY_BYTES_def c_string_def dest: in_set_takeD)

subsection \<open>Dictionary: what holds between calls\<close>

text \<open>The sizes agree; every slot below \<open>num_pairs\<close> holds a key that is a non-empty C
  string shorter than its buffer; the hash index has its \<open>table_size\<close> cells and a mask
  that keeps keys inside them; and every value in the index is a slot below \<open>num_pairs\<close>,
  but for the unused marker in a table cell or in the end node of a chain.\<close>

definition index_values_ok :: "ftgc_hashindex_s \<Rightarrow> int \<Rightarrow> bool" where
  "index_values_ok hi n =
     ((\<forall>v \<in> set (table hi). v = FTGC_HASHINDEX_UNUSED \<or> (0 \<le> v \<and> v < n)) \<and>
      (\<forall>c \<in> set (chain hi).
         (\<forall>v \<in> set (butlast (link_values c)). 0 \<le> v \<and> v < n) \<and>
         (last (link_values c) = FTGC_HASHINDEX_UNUSED \<or>
          (0 \<le> last (link_values c) \<and> last (link_values c) < n))))"

definition dict_keys_ok :: "ftgc__dict_pairs_s \<Rightarrow> int \<Rightarrow> bool" where
  "dict_keys_ok p n =
     (keys_ptr p = Ptr_Live \<and>
      (\<forall>i < nat n. \<exists>s. keys p ! i = Some s \<and> s \<noteq> [] \<and> length s < FTGC_DICT_KEY_BYTES \<and> c_string s))"

definition dict_inv :: "ftgc_dict_s \<Rightarrow> bool" where
  "dict_inv ctx =
     (dict_size ctx = int (length (keys (pairs ctx))) \<and>
      length (vals (pairs ctx)) = length (keys (pairs ctx)) \<and>
      0 \<le> num_pairs ctx \<and> num_pairs ctx \<le> dict_size ctx \<and>
      dict_keys_ok (pairs ctx) (num_pairs ctx) \<and>
      hashindex_wf (hash_index ctx) \<and>
      0 \<le> hash_mask (hash_index ctx) \<and> hash_mask (hash_index ctx) < table_size (hash_index ctx) \<and>
      hash_mask (hash_index ctx) < 2 ^ 31 \<and>
      index_values_ok (hash_index ctx) (num_pairs ctx))"

text \<open>The values the loop of \<open>ftgc__dict_find_index_for_key\<close> goes through in cell \<open>h\<close>.\<close>

definition slot_values :: "ftgc_hashindex_s \<Rightarrow> nat \<Rightarrow> int list" where
  "slot_values hi h =
     (if table hi ! h = FTGC_HASHINDEX_UNUSED then []
      else table hi ! h # chain_yield (link_values (chain hi ! h)))"

text \<open>The search of \<open>ftgc__dict_find_index_for_key\<close> as a search in that list.\<close>

fun dict_first_match :: "ftgc_dict_s \<Rightarrow> string \<Rightarrow> int list \<Rightarrow> error + int" where
  "dict_first_match ctx key [] = Inr FTGC_HASHINDEX_UNUSED"
| "dict_first_match ctx key (i # rest) =
     (if i = FTGC_HASHINDEX_DELETED then dict_first_match ctx key rest
      else case dict_key_at ctx i of
             Inl e \<Rightarrow> Inl e
           | Inr k \<Rightarrow> if ftgc__keycmp key k = 0 then Inr i else dict_first_match ctx key rest)"

lemma find_loop_first_match:
  "ftgc__iterate_from (hash_index ctx) iter i = Inr its \<Longrightarrow>
   ftgc__dict_find_loop ctx key iter i = dict_first_match ctx key its"
proof (induction "hash_index ctx" iter i arbitrary: its rule: ftgc__iterate_from.induct)
  case (1 iter v)
  show ?case
  proof (cases "v = FTGC_HASHINDEX_UNUSED")
    case True
    with "1.prems" show ?thesis
      by (simp add: ftgc__iterate_from.simps [of _ iter FTGC_HASHINDEX_UNUSED]
            ftgc__dict_find_loop.simps [of ctx key iter FTGC_HASHINDEX_UNUSED])
  next
    case False
    with "1.prems" obtain v' iter' vs where
      n: "ftgc_hashindex_iter_get_next (hash_index ctx) iter = Inr (v', iter')"
      and r: "ftgc__iterate_from (hash_index ctx) iter' v' = Inr vs" and its: "its = v # vs"
      by (auto simp: ftgc__iterate_from.simps [of _ iter v] split: sum.splits)
    from "1.hyps" [OF False n refl r]
    have ih: "ftgc__dict_find_loop ctx key iter' v' = dict_first_match ctx key vs" .
    show ?thesis
      using False n ih its
      by (simp add: ftgc__dict_find_loop.simps [of ctx key iter v] split: sum.splits)
  qed
qed

lemma find_index_first_match:
  assumes "0 \<le> ftgc_hashindex_generate_key_string (hash_index ctx) key"
    and "nat (ftgc_hashindex_generate_key_string (hash_index ctx) key) < length (table (hash_index ctx))"
    and "nat (ftgc_hashindex_generate_key_string (hash_index ctx) key) < length (chain (hash_index ctx))"
  shows "ftgc__dict_find_index_for_key ctx key =
           dict_first_match ctx key
             (slot_values (hash_index ctx)
                (nat (ftgc_hashindex_generate_key_string (hash_index ctx) key)))"
proof -
  let ?h = "ftgc_hashindex_generate_key_string (hash_index ctx) key"
  from iterate_eq [OF assms]
  have "ftgc_hashindex_iterate (hash_index ctx) ?h = Inr (slot_values (hash_index ctx) (nat ?h))"
    by (simp add: slot_values_def)
  then have "ftgc__iterate_from (hash_index ctx) \<lparr>current_node = Some (nat ?h, 0), prev_node = None\<rparr>
               (table (hash_index ctx) ! nat ?h) = Inr (slot_values (hash_index ctx) (nat ?h))"
    using assms by (simp add: ftgc_hashindex_iterate_def ftgc_hashindex_iter_get_first_def)
  from find_loop_first_match [OF this, of key] assms show ?thesis
    by (simp add: ftgc__dict_find_index_for_key_def ftgc_hashindex_iter_get_first_def Let_def)
qed

lemma hash_in_range_index:
  assumes "hashindex_wf hi" and m: "0 \<le> hash_mask hi" "hash_mask hi < 2 ^ 31"
    "hash_mask hi < table_size hi"
  shows "0 \<le> ftgc_hashindex_generate_key_string hi key"
    and "nat (ftgc_hashindex_generate_key_string hi key) < length (table hi)"
    and "nat (ftgc_hashindex_generate_key_string hi key) < length (chain hi)"
proof -
  from hash_mask_range [OF m(1,2), of "ftgc__hash_loop key 0"]
  have r: "0 \<le> ftgc_hashindex_generate_key_string hi key"
    "ftgc_hashindex_generate_key_string hi key \<le> hash_mask hi"
    by (simp_all add: ftgc_hashindex_generate_key_string_def)
  then show "0 \<le> ftgc_hashindex_generate_key_string hi key" by simp
  from r m assms(1) show "nat (ftgc_hashindex_generate_key_string hi key) < length (table hi)"
    and "nat (ftgc_hashindex_generate_key_string hi key) < length (chain hi)"
    by (auto simp: hashindex_wf_def)
qed

lemma hash_in_range:
  assumes "dict_inv ctx"
  shows "0 \<le> ftgc_hashindex_generate_key_string (hash_index ctx) key"
    and "nat (ftgc_hashindex_generate_key_string (hash_index ctx) key) < length (table (hash_index ctx))"
    and "nat (ftgc_hashindex_generate_key_string (hash_index ctx) key) < length (chain (hash_index ctx))"
  using assms hash_in_range_index [of "hash_index ctx" key] by (auto simp: dict_inv_def)

lemma hash_same_mask:
  "hash_mask hi' = hash_mask hi \<Longrightarrow>
     ftgc_hashindex_generate_key_string hi' key = ftgc_hashindex_generate_key_string hi key"
  by (simp add: ftgc_hashindex_generate_key_string_def)

lemma chain_yield_valid:
  "\<forall>v \<in> set b. 0 \<le> v \<Longrightarrow>
   chain_yield (b @ [l]) =
     b @ (if l = FTGC_HASHINDEX_UNUSED \<or> l = FTGC_HASHINDEX_DELETED then [] else [l])"
  by (induction b)
     (auto simp: chain_yield_Cons FTGC_HASHINDEX_UNUSED_def FTGC_HASHINDEX_DELETED_def)

lemma link_values_split: "link_values c = butlast (link_values c) @ [last (link_values c)]"
  by simp

lemma slot_values_form:
  assumes "index_values_ok hi n" and "h < length (table hi)" and "h < length (chain hi)"
  shows "slot_values hi h =
     (if table hi ! h = FTGC_HASHINDEX_UNUSED then []
      else table hi ! h # butlast (link_values (chain hi ! h)) @
           (if last (link_values (chain hi ! h)) = FTGC_HASHINDEX_UNUSED then []
            else [last (link_values (chain hi ! h))]))"
proof -
  let ?c = "chain hi ! h"
  from assms have c: "?c \<in> set (chain hi)" by simp
  with assms(1) have b: "\<forall>v \<in> set (butlast (link_values ?c)). 0 \<le> v"
    and l: "last (link_values ?c) = FTGC_HASHINDEX_UNUSED \<or> 0 \<le> last (link_values ?c)"
    by (auto simp: index_values_ok_def)
  from l have "last (link_values ?c) \<noteq> FTGC_HASHINDEX_DELETED"
    by (auto simp: FTGC_HASHINDEX_UNUSED_def FTGC_HASHINDEX_DELETED_def)
  with chain_yield_valid [OF b, of "last (link_values ?c)"]
  have "chain_yield (link_values ?c) =
          butlast (link_values ?c) @
          (if last (link_values ?c) = FTGC_HASHINDEX_UNUSED then [] else [last (link_values ?c)])"
    by simp
  then show ?thesis by (simp add: slot_values_def)
qed

lemma slot_values_valid:
  assumes "index_values_ok hi n" and "h < length (table hi)" and "h < length (chain hi)"
  shows "\<forall>v \<in> set (slot_values hi h). 0 \<le> v \<and> v < n"
proof -
  let ?c = "chain hi ! h"
  from assms have "?c \<in> set (chain hi)" "table hi ! h \<in> set (table hi)" by simp_all
  with assms(1) show ?thesis
    unfolding slot_values_form [OF assms]
    by (auto simp: index_values_ok_def)
qed

definition key_nomatch :: "ftgc_dict_s \<Rightarrow> string \<Rightarrow> int \<Rightarrow> bool" where
  "key_nomatch ctx key i =
     (i = FTGC_HASHINDEX_DELETED \<or> (\<exists>k. dict_key_at ctx i = Inr k \<and> ftgc__keycmp key k \<noteq> 0))"

lemma first_match_unused:
  "dict_first_match ctx key its = Inr FTGC_HASHINDEX_UNUSED \<Longrightarrow>
     \<forall>i \<in> set its. key_nomatch ctx key i"
proof (induction its)
  case Nil
  then show ?case by simp
next
  case (Cons i rest)
  have "\<exists>e. dict_key_at ctx FTGC_HASHINDEX_UNUSED = Inl e"
    by (simp add: dict_key_at_def FTGC_HASHINDEX_UNUSED_def split: pointer_state.splits)
  with Cons show ?case
    by (auto simp: key_nomatch_def split: if_splits sum.splits)
qed

lemma first_match_nomatch:
  "\<forall>i \<in> set its. key_nomatch ctx key i \<Longrightarrow>
     dict_first_match ctx key its = Inr FTGC_HASHINDEX_UNUSED"
  by (induction its) (auto simp: key_nomatch_def)

lemma first_match_prefix:
  assumes "\<forall>i \<in> set pre. key_nomatch ctx key i" and "t \<noteq> FTGC_HASHINDEX_DELETED"
    and "dict_key_at ctx t = Inr k" and "ftgc__keycmp key k = 0"
  shows "dict_first_match ctx key (pre @ t # suf) = Inr t"
  using assms by (induction pre) (auto simp: key_nomatch_def)

lemma first_match_found:
  "dict_first_match ctx key its = Inr t \<Longrightarrow> t \<noteq> FTGC_HASHINDEX_UNUSED \<Longrightarrow>
     \<exists>pre suf. its = pre @ t # suf \<and> (\<forall>i \<in> set pre. i \<noteq> t \<and> key_nomatch ctx key i)
       \<and> t \<noteq> FTGC_HASHINDEX_DELETED"
proof (induction its)
  case Nil
  then show ?case by simp
next
  case (Cons i rest)
  show ?case
  proof (cases "i = FTGC_HASHINDEX_DELETED")
    case True
    with Cons.prems have "dict_first_match ctx key rest = Inr t" by simp
    from Cons.IH [OF this Cons.prems(2)] obtain pre suf where
      "rest = pre @ t # suf" "\<forall>i \<in> set pre. i \<noteq> t \<and> key_nomatch ctx key i"
      "t \<noteq> FTGC_HASHINDEX_DELETED" by auto
    with True show ?thesis
      by (intro exI [of _ "i # pre"] exI [of _ suf]) (auto simp: key_nomatch_def)
  next
    case False
    with Cons.prems obtain k where k: "dict_key_at ctx i = Inr k"
      by (auto split: sum.splits)
    show ?thesis
    proof (cases "ftgc__keycmp key k = 0")
      case True
      with Cons.prems False k have "t = i" by simp
      with False show ?thesis by (intro exI [of _ "[]"] exI [of _ rest]) simp
    next
      case nz: False
      with Cons.prems False k have "dict_first_match ctx key rest = Inr t" by simp
      from Cons.IH [OF this Cons.prems(2)] obtain pre suf where
        ps: "rest = pre @ t # suf" "\<forall>i \<in> set pre. i \<noteq> t \<and> key_nomatch ctx key i"
        "t \<noteq> FTGC_HASHINDEX_DELETED" by auto
      show ?thesis
      proof (cases "i = t")
        case True
        with False show ?thesis by (intro exI [of _ "[]"] exI [of _ rest]) simp
      next
        case ne: False
        with ps k nz show ?thesis
          by (intro exI [of _ "i # pre"] exI [of _ suf]) (auto simp: key_nomatch_def)
      qed
    qed
  qed
qed

lemma keys_ok_key_at:
  assumes "dict_keys_ok (pairs ctx) n" and "nat n \<le> length (keys (pairs ctx))"
    and "0 \<le> i" and "i < n"
  obtains s where "dict_key_at ctx i = Inr s" and "s \<noteq> []"
    and "length s < FTGC_DICT_KEY_BYTES" and "c_string s"
proof -
  from assms(3,4) have lt: "nat i < nat n" by simp
  with assms(1) obtain s where s: "keys (pairs ctx) ! nat i = Some s" "s \<noteq> []"
    "length s < FTGC_DICT_KEY_BYTES" "c_string s"
    unfolding dict_keys_ok_def by blast
  from assms(1) have live: "keys_ptr (pairs ctx) = Ptr_Live" by (simp add: dict_keys_ok_def)
  from lt assms(2) have "nat i < length (keys (pairs ctx))" by (rule less_le_trans)
  with s(1) assms(3) live have "dict_key_at ctx i = Inr s" by (simp add: dict_key_at_def)
  with s that show ?thesis by blast
qed

lemma first_match_total:
  assumes "\<forall>i \<in> set its. 0 \<le> i \<and> i < n" and "dict_keys_ok (pairs ctx) n"
    and "nat n \<le> length (keys (pairs ctx))"
  shows "\<exists>r. dict_first_match ctx key its = Inr r \<and> (r = FTGC_HASHINDEX_UNUSED \<or> r \<in> set its)"
  using assms(1)
proof (induction its)
  case Nil
  then show ?case by simp
next
  case (Cons i rest)
  then have i: "0 \<le> i" "i < n" by auto
  with assms(2,3) obtain s where "dict_key_at ctx i = Inr s"
    by (auto elim: keys_ok_key_at)
  with Cons show ?case by auto
qed

lemma first_match_long:
  assumes "\<forall>i \<in> set its. 0 \<le> i \<and> i < n" and "dict_keys_ok (pairs ctx) n"
    and "nat n \<le> length (keys (pairs ctx))"
    and "c_string key" and "FTGC_DICT_KEY_BYTES \<le> length key"
  shows "dict_first_match ctx key its = Inr FTGC_HASHINDEX_UNUSED"
proof (rule first_match_nomatch, rule ballI)
  fix i assume "i \<in> set its"
  with assms(1) have i: "0 \<le> i" "i < n" by auto
  with assms(2,3) obtain s where s: "dict_key_at ctx i = Inr s" "length s < FTGC_DICT_KEY_BYTES" "c_string s"
    by (auto elim: keys_ok_key_at)
  with assms(4,5) keycmp_zero_length [of key s] have "ftgc__keycmp key s \<noteq> 0" by auto
  with s show "key_nomatch ctx key i" by (auto simp: key_nomatch_def)
qed

lemma index_values_ok_mono:
  "index_values_ok hi n \<Longrightarrow> n \<le> n' \<Longrightarrow> index_values_ok hi n'"
  unfolding index_values_ok_def by (meson order_less_le_trans)

lemma add_key_total:
  assumes "h < length (table hi)" and "h < length (chain hi)"
  shows "\<exists>r hi'. ftgc_hashindex_add_key hi (int h) t node_ok = Inr (r, hi')
           \<and> (r = 0 \<or> r = 1 \<or> r = -1) \<and> (r = -1 \<longrightarrow> \<not> node_ok)
           \<and> (r = -1 \<longleftrightarrow>
                \<not> node_ok \<and> table hi ! h \<noteq> FTGC_HASHINDEX_UNUSED \<and>
                table hi ! h \<noteq> FTGC_HASHINDEX_DELETED \<and> table hi ! h \<noteq> t \<and>
                \<not> ftgc__is_value_in_chain (chain hi ! h) t)"
  using add_key_cases [of "int h" hi t node_ok] assms
  by (auto simp: is_value_in_chain_iff)

lemma add_key_slot:
  assumes ok: "index_values_ok hi n" and h: "h < length (table hi)" "h < length (chain hi)"
    and t: "0 \<le> t" "t < n'" "n \<le> n'"
    and add: "ftgc_hashindex_add_key hi (int h) t node_ok = Inr (r, hi')"
  shows "index_values_ok hi' n'"
    and "length (table hi') = length (table hi)" and "length (chain hi') = length (chain hi)"
    and "table_size hi' = table_size hi" and "hash_mask hi' = hash_mask hi"
    and "\<exists>pre suf. slot_values hi' h = pre @ t # suf \<and> set pre \<subseteq> set (slot_values hi h)"
    and "t \<in> set (slot_values hi h) \<Longrightarrow> slot_values hi' h = slot_values hi h"
proof -
  let ?c = "chain hi ! h"
  let ?b = "butlast (link_values ?c)"
  let ?l = "last (link_values ?c)"
  let ?v0 = "table hi ! h"
  note cases = add_key_cases [of "int h" hi t node_ok, simplified, OF h]
  from t have tm: "t \<noteq> FTGC_HASHINDEX_UNUSED" "t \<noteq> FTGC_HASHINDEX_DELETED"
    by (auto simp: FTGC_HASHINDEX_UNUSED_def FTGC_HASHINDEX_DELETED_def)
  from ok t(3) have ok': "index_values_ok hi n'" by (rule index_values_ok_mono)
  from h have cin: "?c \<in> set (chain hi)" and vin: "?v0 \<in> set (table hi)" by simp_all
  from ok' cin have b: "\<forall>v \<in> set ?b. 0 \<le> v \<and> v < n'"
    and l: "?l = FTGC_HASHINDEX_UNUSED \<or> (0 \<le> ?l \<and> ?l < n')"
    by (auto simp: index_values_ok_def)
  from ok' vin have v0: "?v0 = FTGC_HASHINDEX_UNUSED \<or> (0 \<le> ?v0 \<and> ?v0 < n')"
    by (auto simp: index_values_ok_def)
  then have nd: "?v0 \<noteq> FTGC_HASHINDEX_DELETED"
    by (auto simp: FTGC_HASHINDEX_UNUSED_def FTGC_HASHINDEX_DELETED_def)
  note form = slot_values_form [OF ok h]
  consider (empty) "?v0 = FTGC_HASHINDEX_UNUSED"
    | (dup) "?v0 \<noteq> FTGC_HASHINDEX_UNUSED" "t = ?v0 \<or> t \<in> set ?b"
    | (new) "?v0 \<noteq> FTGC_HASHINDEX_UNUSED" "t \<noteq> ?v0" "t \<notin> set ?b"
    by blast
  then have "index_values_ok hi' n' \<and>
     length (table hi') = length (table hi) \<and> length (chain hi') = length (chain hi) \<and>
     table_size hi' = table_size hi \<and> hash_mask hi' = hash_mask hi \<and>
     (\<exists>pre suf. slot_values hi' h = pre @ t # suf \<and> set pre \<subseteq> set (slot_values hi h)) \<and>
     (t \<in> set (slot_values hi h) \<longrightarrow> slot_values hi' h = slot_values hi h)"
  proof cases
    case empty
    with add cases have hi': "hi' = hi\<lparr>table := (table hi)[h := t]\<rparr>" by simp
    have "\<forall>v \<in> set ((table hi)[h := t]). v = FTGC_HASHINDEX_UNUSED \<or> (0 \<le> v \<and> v < n')"
      using ok' t set_update_subset_insert [of "table hi" h t]
      by (auto simp: index_values_ok_def)
    with ok' hi' have 1: "index_values_ok hi' n'" by (simp add: index_values_ok_def)
    have 2: "slot_values hi' h = [] @ t # chain_yield (link_values ?c)"
      using hi' h tm by (simp add: slot_values_def)
    have 3: "slot_values hi h = []" using empty by (simp add: slot_values_def)
    have 5: "\<exists>pre suf. slot_values hi' h = pre @ t # suf \<and> set pre \<subseteq> set (slot_values hi h)"
      using 2 by (intro exI [of _ "[]"] exI [of _ "chain_yield (link_values ?c)"]) simp
    from 1 3 5 hi' show ?thesis by simp
  next
    case dup
    with add cases nd have hi': "hi' = hi" by simp
    from dup form have "t \<in> set (slot_values hi h)" by auto
    then obtain pre suf where "slot_values hi h = pre @ t # suf" by (auto dest: split_list)
    then have "\<exists>pre suf. slot_values hi h = pre @ t # suf \<and> set pre \<subseteq> set (slot_values hi h)"
      by (intro exI [of _ pre] exI [of _ suf]) auto
    with hi' ok' show ?thesis by simp
  next
    case new
    with add cases nd
    have hi': "hi' = hi\<lparr>chain := (chain hi)[h := chain_store ?c t node_ok]\<rparr>"
      by (auto split: if_splits)
    let ?c' = "chain_store ?c t node_ok"
    have lv: "link_values ?c' = ?b @ (if node_ok then [t, FTGC_HASHINDEX_UNUSED] else [t])"
      by (rule link_values_chain_store)
    then have bl: "butlast (link_values ?c') = (if node_ok then ?b @ [t] else ?b)"
      and la: "last (link_values ?c') = (if node_ok then FTGC_HASHINDEX_UNUSED else t)"
      by (simp_all add: butlast_append)
    have c'ok: "(\<forall>v \<in> set (butlast (link_values ?c')). 0 \<le> v \<and> v < n') \<and>
         (last (link_values ?c') = FTGC_HASHINDEX_UNUSED \<or>
          (0 \<le> last (link_values ?c') \<and> last (link_values ?c') < n'))"
      using b t bl la by auto
    have "\<forall>c \<in> set ((chain hi)[h := ?c']).
         (\<forall>v \<in> set (butlast (link_values c)). 0 \<le> v \<and> v < n') \<and>
         (last (link_values c) = FTGC_HASHINDEX_UNUSED \<or>
          (0 \<le> last (link_values c) \<and> last (link_values c) < n'))"
    proof
      fix c assume "c \<in> set ((chain hi)[h := ?c'])"
      with set_update_subset_insert [of "chain hi" h ?c'] have "c = ?c' \<or> c \<in> set (chain hi)"
        by auto
      with c'ok ok' show "(\<forall>v \<in> set (butlast (link_values c)). 0 \<le> v \<and> v < n') \<and>
         (last (link_values c) = FTGC_HASHINDEX_UNUSED \<or>
          (0 \<le> last (link_values c) \<and> last (link_values c) < n'))"
        unfolding index_values_ok_def by blast
    qed
    with ok' hi' have 1: "index_values_ok hi' n'" by (simp add: index_values_ok_def)
    have h': "h < length (table hi')" "h < length (chain hi')" using hi' h by simp_all
    have 2: "slot_values hi' h = (?v0 # ?b) @ t # []"
      unfolding slot_values_form [OF 1 h'] using hi' h new(1) bl la tm by simp
    have 3: "set (?v0 # ?b) \<subseteq> set (slot_values hi h)" using form new(1) by auto
    have 4: "t \<in> set (slot_values hi h) \<longrightarrow> slot_values hi' h = slot_values hi h"
      using form 2 new by (auto split: if_splits)
    have 5: "\<exists>pre suf. slot_values hi' h = pre @ t # suf \<and> set pre \<subseteq> set (slot_values hi h)"
      using 2 3 by blast
    from 1 4 5 hi' show ?thesis by simp
  qed
  then show "index_values_ok hi' n'"
    and "length (table hi') = length (table hi)" and "length (chain hi') = length (chain hi)"
    and "table_size hi' = table_size hi" and "hash_mask hi' = hash_mask hi"
    and "\<exists>pre suf. slot_values hi' h = pre @ t # suf \<and> set pre \<subseteq> set (slot_values hi h)"
    and "t \<in> set (slot_values hi h) \<Longrightarrow> slot_values hi' h = slot_values hi h"
    by blast+
qed

lemma scan_empty_none:
  "\<forall>j. i \<le> j \<and> j < i + n \<longrightarrow> (\<exists>s. dict_key_at ctx (int j) = Inr s \<and> s \<noteq> [] \<and> c_string s) \<Longrightarrow>
   ftgc__dict_scan_empty ctx n i = Inr None"
proof (induction n arbitrary: i)
  case 0
  then show ?case by simp
next
  case (Suc n)
  from Suc.prems have "\<exists>s. dict_key_at ctx (int i) = Inr s \<and> s \<noteq> [] \<and> c_string s"
    by simp
  then obtain s where s: "dict_key_at ctx (int i) = Inr s" "s \<noteq> []" "c_string s"
    by blast
  then obtain c cs where "s = c # cs" "c \<noteq> CHR 0x00"
    by (cases s) (auto simp: c_string_def)
  moreover have "ftgc__dict_scan_empty ctx n (Suc i) = Inr None"
    using Suc.prems by (intro Suc.IH) auto
  ultimately show ?case using s by simp
qed

lemma find_empty_fresh:
  assumes "dict_keys_ok (pairs ctx) (num_pairs ctx)"
    and "nat (num_pairs ctx) \<le> length (keys (pairs ctx))"
  shows "ftgc__dict_find_empty_slot ctx = Inr (num_pairs ctx, ctx\<lparr>num_pairs := num_pairs ctx + 1\<rparr>)"
proof -
  have "\<exists>s. dict_key_at ctx (int j) = Inr s \<and> s \<noteq> [] \<and> c_string s"
    if "j < nat (num_pairs ctx)" for j
  proof -
    from that have "0 \<le> int j" "int j < num_pairs ctx" by auto
    from keys_ok_key_at [OF assms this] show ?thesis by metis
  qed
  then have "ftgc__dict_scan_empty ctx (nat (num_pairs ctx)) 0 = Inr None"
    by (intro scan_empty_none) auto
  then show ?thesis by (simp add: ftgc__dict_find_empty_slot_def)
qed

definition dict_grown :: "ftgc_dict_s \<Rightarrow> ftgc_dict_s" where
  "dict_grown ctx =
     snd (projr (ftgc__dict_reallocate ctx (dict_size ctx + int FTGC_DICT_KEY_BYTES)
                   Realloc_Moved True))"

lemma dict_grown_fields:
  assumes "dict_size ctx = int (length (keys (pairs ctx)))"
    and "length (vals (pairs ctx)) = length (keys (pairs ctx))"
    and "keys_ptr (pairs ctx) = Ptr_Live"
  shows "keys (pairs (dict_grown ctx)) = keys (pairs ctx) @ replicate FTGC_DICT_KEY_BYTES None"
    and "length (vals (pairs (dict_grown ctx))) = length (keys (pairs ctx)) + FTGC_DICT_KEY_BYTES"
    and "take (length (vals (pairs ctx))) (vals (pairs (dict_grown ctx))) = vals (pairs ctx)"
    and "\<forall>v \<in> set (vals (pairs (dict_grown ctx))). v \<in> set (vals (pairs ctx)) \<or>
           v = \<lparr>external_storage = NULL, internal_storage = NULL, field_type = FTGC_VARTYPE_VOID\<rparr>"
    and "dict_size (dict_grown ctx) = dict_size ctx + int FTGC_DICT_KEY_BYTES"
    and "num_pairs (dict_grown ctx) = num_pairs ctx"
    and "hash_index (dict_grown ctx) = hash_index ctx"
    and "keys_ptr (pairs (dict_grown ctx)) = Ptr_Live"
  using assms
  by (auto simp: dict_grown_def ftgc__dict_reallocate_def Let_def nat_add_distrib
        ftgc_variant_init_def FTGC__VARIANT_ZERO_def)

lemma reallocate_result:
  assumes "keys_ptr (pairs ctx) = Ptr_Live"
  shows "ka \<noteq> Realloc_NULL \<and> vo \<Longrightarrow>
           ftgc__dict_reallocate ctx (dict_size ctx + int FTGC_DICT_KEY_BYTES) ka vo
             = Inr (1, dict_grown ctx)"
    and "\<not> (ka \<noteq> Realloc_NULL \<and> vo) \<Longrightarrow>
           \<exists>c. ftgc__dict_reallocate ctx (dict_size ctx + int FTGC_DICT_KEY_BYTES) ka vo = Inr (0, c)
             \<and> (ka = Realloc_NULL \<longrightarrow> c = ctx)
             \<and> hash_index c = hash_index ctx \<and> num_pairs c = num_pairs ctx
             \<and> dict_size c = dict_size ctx \<and> vals (pairs c) = vals (pairs ctx)"
  using assms
  by (auto simp: dict_grown_def ftgc__dict_reallocate_def Let_def)

lemma set_string_target_cases:
  assumes "dict_inv ctx"
  obtains (found) t where
      "dict_first_match ctx key
         (slot_values (hash_index ctx) (nat (ftgc_hashindex_generate_key_string (hash_index ctx) key)))
       = Inr t"
      and "0 \<le> t" and "t < num_pairs ctx"
      and "ftgc__dict_set_string_target ctx key ka vo = Inr (Some t, ctx)"
  | (full) c where
      "dict_first_match ctx key
         (slot_values (hash_index ctx) (nat (ftgc_hashindex_generate_key_string (hash_index ctx) key)))
       = Inr FTGC_HASHINDEX_UNUSED"
      and "num_pairs ctx = dict_size ctx" and "\<not> (ka \<noteq> Realloc_NULL \<and> vo)"
      and "ftgc__dict_set_string_target ctx key ka vo = Inr (None, c)"
      and "ka = Realloc_NULL \<longrightarrow> c = ctx"
      and "hash_index c = hash_index ctx" and "num_pairs c = num_pairs ctx"
      and "dict_size c = dict_size ctx" and "vals (pairs c) = vals (pairs ctx)"
  | (new)
      "dict_first_match ctx key
         (slot_values (hash_index ctx) (nat (ftgc_hashindex_generate_key_string (hash_index ctx) key)))
       = Inr FTGC_HASHINDEX_UNUSED"
      and "num_pairs ctx = dict_size ctx \<longrightarrow> ka \<noteq> Realloc_NULL \<and> vo"
      and "ftgc__dict_set_string_target ctx key ka vo =
             Inr (Some (num_pairs ctx),
                  (if num_pairs ctx = dict_size ctx then dict_grown ctx else ctx)
                    \<lparr>num_pairs := num_pairs ctx + 1\<rparr>)"
proof -
  let ?hi = "hash_index ctx"
  let ?h = "nat (ftgc_hashindex_generate_key_string ?hi key)"
  let ?its = "slot_values ?hi ?h"
  note hr = hash_in_range [OF assms, of key]
  have find: "ftgc__dict_find_index_for_key ctx key = dict_first_match ctx key ?its"
    by (rule find_index_first_match [OF hr])
  from assms have iok: "index_values_ok ?hi (num_pairs ctx)"
    and kok: "dict_keys_ok (pairs ctx) (num_pairs ctx)"
    and len: "nat (num_pairs ctx) \<le> length (keys (pairs ctx))"
    and sz: "dict_size ctx = int (length (keys (pairs ctx)))"
      "length (vals (pairs ctx)) = length (keys (pairs ctx))"
    by (auto simp: dict_inv_def)
  from kok have live: "keys_ptr (pairs ctx) = Ptr_Live" by (simp add: dict_keys_ok_def)
  from slot_values_valid [OF iok hr(2,3)]
  have valid: "\<forall>v \<in> set ?its. 0 \<le> v \<and> v < num_pairs ctx" .
  from first_match_total [OF valid kok len, of key]
  obtain r where r: "dict_first_match ctx key ?its = Inr r"
    "r = FTGC_HASHINDEX_UNUSED \<or> r \<in> set ?its" by blast
  show ?thesis
  proof (cases "r = FTGC_HASHINDEX_UNUSED")
    case False
    with r valid have "0 \<le> r" "r < num_pairs ctx" by auto
    moreover from False r find have "ftgc__dict_set_string_target ctx key ka vo = Inr (Some r, ctx)"
      by (simp add: ftgc__dict_set_string_target_def)
    ultimately show ?thesis using r(1) by (intro found [of r]) auto
  next
    case True
    show ?thesis
    proof (cases "num_pairs ctx = dict_size ctx \<and> \<not> (ka \<noteq> Realloc_NULL \<and> vo)")
      case True
      then have "\<not> (ka \<noteq> Realloc_NULL \<and> vo)" by simp
      from reallocate_result(2) [OF live this] obtain c where
        c: "ftgc__dict_reallocate ctx (dict_size ctx + int FTGC_DICT_KEY_BYTES) ka vo = Inr (0, c)"
          "ka = Realloc_NULL \<longrightarrow> c = ctx"
          "hash_index c = hash_index ctx" "num_pairs c = num_pairs ctx"
          "dict_size c = dict_size ctx" "vals (pairs c) = vals (pairs ctx)"
        by blast
      with True \<open>r = FTGC_HASHINDEX_UNUSED\<close> r find
      have "ftgc__dict_set_string_target ctx key ka vo = Inr (None, c)"
        by (simp add: ftgc__dict_set_string_target_def)
      with True r \<open>r = FTGC_HASHINDEX_UNUSED\<close> c show ?thesis by (intro full [of c]) auto
    next
      case False
      let ?c1 = "if num_pairs ctx = dict_size ctx then dict_grown ctx else ctx"
      note g = dict_grown_fields [OF sz live]
      have k1: "dict_keys_ok (pairs ?c1) (num_pairs ?c1)"
        using kok len g
        by (auto simp: dict_keys_ok_def nth_append)
      have l1: "nat (num_pairs ?c1) \<le> length (keys (pairs ?c1))"
        using len g by auto
      have n1: "num_pairs ?c1 = num_pairs ctx" using g by auto
      from find_empty_fresh [OF k1 l1] n1
      have fe: "ftgc__dict_find_empty_slot ?c1 = Inr (num_pairs ctx, ?c1\<lparr>num_pairs := num_pairs ctx + 1\<rparr>)"
        by simp
      have re: "num_pairs ctx = dict_size ctx \<Longrightarrow>
          ftgc__dict_reallocate ctx (dict_size ctx + int FTGC_DICT_KEY_BYTES) ka vo
             = Inr (1, dict_grown ctx)"
        using False by (intro reallocate_result(1) [OF live]) auto
      have "ftgc__dict_set_string_target ctx key ka vo =
              Inr (Some (num_pairs ctx), ?c1\<lparr>num_pairs := num_pairs ctx + 1\<rparr>)"
      proof (cases "num_pairs ctx = dict_size ctx")
        case True
        with re fe \<open>r = FTGC_HASHINDEX_UNUSED\<close> r find show ?thesis
          by (simp add: ftgc__dict_set_string_target_def)
      next
        case False
        with fe \<open>r = FTGC_HASHINDEX_UNUSED\<close> r find show ?thesis
          by (simp add: ftgc__dict_set_string_target_def)
      qed
      with False r \<open>r = FTGC_HASHINDEX_UNUSED\<close> show ?thesis by (intro new) auto
    qed
  qed
qed

text \<open>What holds before the second half of \<open>ftgc_dict_set_string\<close> writes slot \<open>t\<close>: as
  between calls, but the key buffer of slot \<open>t\<close> may hold nothing yet.\<close>

definition dict_store_ready :: "ftgc_dict_s \<Rightarrow> int \<Rightarrow> bool" where
  "dict_store_ready ctx t =
     (dict_size ctx = int (length (keys (pairs ctx))) \<and>
      length (vals (pairs ctx)) = length (keys (pairs ctx)) \<and>
      0 \<le> t \<and> t < num_pairs ctx \<and> num_pairs ctx \<le> dict_size ctx \<and>
      keys_ptr (pairs ctx) = Ptr_Live \<and>
      (\<forall>i < nat (num_pairs ctx). i \<noteq> nat t \<longrightarrow>
         (\<exists>s. keys (pairs ctx) ! i = Some s \<and> s \<noteq> [] \<and> length s < FTGC_DICT_KEY_BYTES \<and> c_string s)) \<and>
      hashindex_wf (hash_index ctx) \<and>
      0 \<le> hash_mask (hash_index ctx) \<and> hash_mask (hash_index ctx) < table_size (hash_index ctx) \<and>
      hash_mask (hash_index ctx) < 2 ^ 31 \<and>
      index_values_ok (hash_index ctx) (num_pairs ctx))"

lemma store_ready_found:
  "dict_inv ctx \<Longrightarrow> 0 \<le> t \<Longrightarrow> t < num_pairs ctx \<Longrightarrow> dict_store_ready ctx t"
  by (auto simp: dict_inv_def dict_store_ready_def dict_keys_ok_def)

lemma store_ready_new:
  assumes "dict_inv ctx" and "num_pairs ctx \<noteq> dict_size ctx \<or> grown"
  shows "dict_store_ready
           ((if num_pairs ctx = dict_size ctx then dict_grown ctx else ctx)
              \<lparr>num_pairs := num_pairs ctx + 1\<rparr>) (num_pairs ctx)"
proof -
  from assms(1) have sz: "dict_size ctx = int (length (keys (pairs ctx)))"
      "length (vals (pairs ctx)) = length (keys (pairs ctx))"
    and n: "0 \<le> num_pairs ctx" "num_pairs ctx \<le> dict_size ctx"
    and kok: "dict_keys_ok (pairs ctx) (num_pairs ctx)"
    and iok: "index_values_ok (hash_index ctx) (num_pairs ctx)"
    by (auto simp: dict_inv_def)
  from kok have live: "keys_ptr (pairs ctx) = Ptr_Live" by (simp add: dict_keys_ok_def)
  note g = dict_grown_fields [OF sz live]
  have iok': "index_values_ok (hash_index ctx) (num_pairs ctx + 1)"
    using iok by (rule index_values_ok_mono) simp
  show ?thesis
  proof (cases "num_pairs ctx = dict_size ctx")
    case True
    have "\<exists>s. (keys (pairs ctx) @ replicate FTGC_DICT_KEY_BYTES None) ! i = Some s \<and> s \<noteq> [] \<and>
              length s < FTGC_DICT_KEY_BYTES \<and> c_string s"
      if "i < nat (num_pairs ctx)" for i
      using that kok n sz by (auto simp: dict_keys_ok_def nth_append)
    then have "\<forall>i < nat (num_pairs ctx + 1). i \<noteq> nat (num_pairs ctx) \<longrightarrow>
         (\<exists>s. (keys (pairs ctx) @ replicate FTGC_DICT_KEY_BYTES None) ! i = Some s \<and> s \<noteq> [] \<and>
              length s < FTGC_DICT_KEY_BYTES \<and> c_string s)"
      using n by (auto simp: nat_add_distrib less_Suc_eq)
    with True assms(1) g n iok' live show ?thesis
      by (simp add: dict_store_ready_def dict_inv_def FTGC_DICT_KEY_BYTES_def)
  next
    case False
    have "\<forall>i < nat (num_pairs ctx + 1). i \<noteq> nat (num_pairs ctx) \<longrightarrow>
         (\<exists>s. keys (pairs ctx) ! i = Some s \<and> s \<noteq> [] \<and>
              length s < FTGC_DICT_KEY_BYTES \<and> c_string s)"
      using kok n by (auto simp: dict_keys_ok_def nat_add_distrib less_Suc_eq)
    with False assms(1) n iok' live show ?thesis
      by (simp add: dict_store_ready_def dict_inv_def)
  qed
qed

lemma store_result:
  assumes ready: "dict_store_ready ctx1 t"
    and st: "ftgc__dict_set_string_store ctx1 mem key value t answer node_ok = Inr (r, ctx', mem')"
  obtains copied v r' where
      "ftgc_variant_set_string (vals (pairs ctx1) ! nat t) mem value answer = Inr (copied, v, mem')"
    and "ftgc_hashindex_add_key (hash_index ctx1)
           (ftgc_hashindex_generate_key_string (hash_index ctx1) key) t node_ok
         = Inr (r', hash_index ctx')"
    and "r = (if r' = -1 then 0 else 1)"
    and "keys (pairs ctx') = (keys (pairs ctx1))[nat t := Some (ftgc__dict_set_key key)]"
    and "vals (pairs ctx') = (vals (pairs ctx1))[nat t := v]"
    and "num_pairs ctx' = num_pairs ctx1" and "dict_size ctx' = dict_size ctx1"
    and "keys_ptr (pairs ctx') = Ptr_Live"
proof -
  from ready have t: "0 \<le> t" "nat t < length (keys (pairs ctx1))" "nat t < length (vals (pairs ctx1))"
      "keys_ptr (pairs ctx1) = Ptr_Live"
    by (auto simp: dict_store_ready_def)
  with st obtain copied v where
    vs: "ftgc_variant_set_string (vals (pairs ctx1) ! nat t) mem value answer = Inr (copied, v, mem')"
    by (auto simp: ftgc__dict_set_string_store_def Let_def split: sum.splits if_splits)
  with st t obtain r' hi' where
    ak: "ftgc_hashindex_add_key (hash_index ctx1)
           (ftgc_hashindex_generate_key_string (hash_index ctx1) key) t node_ok = Inr (r', hi')"
    by (auto simp: ftgc__dict_set_string_store_def Let_def split: sum.splits if_splits)
  from st t vs ak have
    c: "ctx' = ctx1\<lparr>pairs := (pairs ctx1)
                               \<lparr> keys := (keys (pairs ctx1))[nat t := Some (ftgc__dict_set_key key)],
                                 vals := (vals (pairs ctx1))[nat t := v] \<rparr>,
                     hash_index := hi'\<rparr>"
    and r: "r = (if r' = -1 then 0 else 1)"
    by (auto simp: ftgc__dict_set_string_store_def Let_def split: if_splits)
  from vs ak r c t(4) show ?thesis by (intro that [of copied v r']) simp_all
qed

lemma store_total:
  assumes ready: "dict_store_ready ctx1 t"
    and vs: "ftgc_variant_set_string (vals (pairs ctx1) ! nat t) mem value answer = Inr (copied, v, mem')"
  shows "\<exists>r ctx'. ftgc__dict_set_string_store ctx1 mem key value t answer node_ok = Inr (r, ctx', mem')
           \<and> (r = 0 \<or> r = 1) \<and> (r = 0 \<longrightarrow> \<not> node_ok)
           \<and> (r = 0 \<longleftrightarrow>
                \<not> node_ok \<and>
                table (hash_index ctx1)
                  ! nat (ftgc_hashindex_generate_key_string (hash_index ctx1) key)
                  \<noteq> FTGC_HASHINDEX_UNUSED \<and>
                table (hash_index ctx1)
                  ! nat (ftgc_hashindex_generate_key_string (hash_index ctx1) key)
                  \<noteq> FTGC_HASHINDEX_DELETED \<and>
                table (hash_index ctx1)
                  ! nat (ftgc_hashindex_generate_key_string (hash_index ctx1) key) \<noteq> t \<and>
                \<not> ftgc__is_value_in_chain
                    (chain (hash_index ctx1)
                       ! nat (ftgc_hashindex_generate_key_string (hash_index ctx1) key)) t)"
proof -
  from ready have t: "0 \<le> t" "nat t < length (keys (pairs ctx1))" "nat t < length (vals (pairs ctx1))"
      "keys_ptr (pairs ctx1) = Ptr_Live"
    by (auto simp: dict_store_ready_def)
  let ?hi = "hash_index ctx1"
  let ?h = "ftgc_hashindex_generate_key_string ?hi key"
  from ready have "hashindex_wf ?hi" "0 \<le> hash_mask ?hi" "hash_mask ?hi < 2 ^ 31"
    "hash_mask ?hi < table_size ?hi" by (auto simp: dict_store_ready_def)
  note hr = hash_in_range_index [OF this, of key]
  from add_key_total [OF hr(2,3), of t node_ok] hr(1)
  obtain r' hi' where "ftgc_hashindex_add_key ?hi ?h t node_ok = Inr (r', hi')"
    "r' = 0 \<or> r' = 1 \<or> r' = -1" "r' = -1 \<longrightarrow> \<not> node_ok"
    "r' = -1 \<longleftrightarrow>
       \<not> node_ok \<and> table ?hi ! nat ?h \<noteq> FTGC_HASHINDEX_UNUSED \<and>
       table ?hi ! nat ?h \<noteq> FTGC_HASHINDEX_DELETED \<and> table ?hi ! nat ?h \<noteq> t \<and>
       \<not> ftgc__is_value_in_chain (chain ?hi ! nat ?h) t" by auto
  with t vs show ?thesis
    by (auto simp: ftgc__dict_set_string_store_def Let_def)
qed

lemma store_inv:
  assumes ready: "dict_store_ready ctx1 t" and key: "c_string key" "key \<noteq> []"
    and st: "ftgc__dict_set_string_store ctx1 mem key value t answer node_ok = Inr (r, ctx', mem')"
  shows "dict_inv ctx'"
proof -
  let ?hi = "hash_index ctx1"
  let ?h = "ftgc_hashindex_generate_key_string ?hi key"
  from store_result [OF ready st] obtain copied v r' where
    ak: "ftgc_hashindex_add_key ?hi ?h t node_ok = Inr (r', hash_index ctx')"
    and ks: "keys (pairs ctx') = (keys (pairs ctx1))[nat t := Some (ftgc__dict_set_key key)]"
    and vs: "vals (pairs ctx') = (vals (pairs ctx1))[nat t := v]"
    and n: "num_pairs ctx' = num_pairs ctx1" and d: "dict_size ctx' = dict_size ctx1"
    and live: "keys_ptr (pairs ctx') = Ptr_Live"
    by metis
  from ready have wf: "hashindex_wf ?hi" and m: "0 \<le> hash_mask ?hi" "hash_mask ?hi < 2 ^ 31"
    "hash_mask ?hi < table_size ?hi"
    and iok: "index_values_ok ?hi (num_pairs ctx1)"
    and t: "0 \<le> t" "t < num_pairs ctx1"
    by (auto simp: dict_store_ready_def)
  note hr = hash_in_range_index [OF wf m, of key]
  from ak hr(1) have ak': "ftgc_hashindex_add_key ?hi (int (nat ?h)) t node_ok = Inr (r', hash_index ctx')"
    by simp
  note sl = add_key_slot [OF iok hr(2,3) t order_refl ak']
  have kok: "dict_keys_ok (pairs ctx') (num_pairs ctx')"
    unfolding dict_keys_ok_def
  proof (intro conjI allI impI)
    show "keys_ptr (pairs ctx') = Ptr_Live" by (rule live)
  next
    fix i assume i: "i < nat (num_pairs ctx')"
    show "\<exists>s. keys (pairs ctx') ! i = Some s \<and> s \<noteq> [] \<and> length s < FTGC_DICT_KEY_BYTES \<and> c_string s"
    proof (cases "i = nat t")
      case True
      from ready have "nat t < length (keys (pairs ctx1))" by (auto simp: dict_store_ready_def)
      with True ks set_key_stored [OF key] show ?thesis by simp
    next
      case False
      with i n ready ks show ?thesis by (auto simp: dict_store_ready_def)
    qed
  qed
  from sl(2-5) wf have wf': "hashindex_wf (hash_index ctx')" by (simp add: hashindex_wf_def)
  from ready ks vs n d kok wf' sl(1,4,5) show ?thesis
    by (simp add: dict_inv_def dict_store_ready_def)
qed

lemma find_index_inv:
  assumes "dict_inv ctx"
  shows "ftgc__dict_find_index_for_key ctx key =
           dict_first_match ctx key
             (slot_values (hash_index ctx)
                (nat (ftgc_hashindex_generate_key_string (hash_index ctx) key)))"
    and "\<forall>v \<in> set (slot_values (hash_index ctx)
                (nat (ftgc_hashindex_generate_key_string (hash_index ctx) key))).
           0 \<le> v \<and> v < num_pairs ctx"
proof -
  note hr = hash_in_range [OF assms, of key]
  show "ftgc__dict_find_index_for_key ctx key =
           dict_first_match ctx key
             (slot_values (hash_index ctx)
                (nat (ftgc_hashindex_generate_key_string (hash_index ctx) key)))"
    by (rule find_index_first_match [OF hr])
  from assms have "index_values_ok (hash_index ctx) (num_pairs ctx)" by (simp add: dict_inv_def)
  from slot_values_valid [OF this hr(2,3)]
  show "\<forall>v \<in> set (slot_values (hash_index ctx)
                (nat (ftgc_hashindex_generate_key_string (hash_index ctx) key))).
           0 \<le> v \<and> v < num_pairs ctx" .
qed

lemma get_string_long:
  assumes "dict_inv ctx" and "c_string key" and "FTGC_DICT_KEY_BYTES \<le> length key"
  shows "ftgc__dict_find_index_for_key ctx key = Inr FTGC_HASHINDEX_UNUSED"
    and "ftgc_dict_get_string ctx key fallback = Inr fallback"
proof -
  from assms(1) have kok: "dict_keys_ok (pairs ctx) (num_pairs ctx)"
    and len: "nat (num_pairs ctx) \<le> length (keys (pairs ctx))"
    by (auto simp: dict_inv_def)
  from find_index_inv [OF assms(1), of key] first_match_long [OF _ kok len assms(2,3)]
  show "ftgc__dict_find_index_for_key ctx key = Inr FTGC_HASHINDEX_UNUSED" by simp
  then show "ftgc_dict_get_string ctx key fallback = Inr fallback"
    by (simp add: ftgc_dict_get_string_def)
qed

lemma find_after_store:
  assumes ready: "dict_store_ready ctx1 t"
    and key: "c_string key" "key \<noteq> []" "length key < FTGC_DICT_KEY_BYTES"
    and st: "ftgc__dict_set_string_store ctx1 mem key value t answer node_ok = Inr (r, ctx', mem')"
    and split: "slot_values (hash_index ctx')
                  (nat (ftgc_hashindex_generate_key_string (hash_index ctx1) key)) = pre @ t # suf"
    and pre: "\<forall>i \<in> set pre. i \<noteq> t \<and> key_nomatch ctx1 key i"
  shows "ftgc__dict_find_index_for_key ctx' key = Inr t"
proof -
  let ?hi = "hash_index ctx1"
  from store_result [OF ready st] obtain copied v r' where
    ak: "ftgc_hashindex_add_key ?hi (ftgc_hashindex_generate_key_string ?hi key) t node_ok
           = Inr (r', hash_index ctx')"
    and ks: "keys (pairs ctx') = (keys (pairs ctx1))[nat t := Some (ftgc__dict_set_key key)]"
    and live: "keys_ptr (pairs ctx') = Ptr_Live"
    by metis
  from ready have t: "0 \<le> t" "nat t < length (keys (pairs ctx1))"
    by (auto simp: dict_store_ready_def)
  have inv': "dict_inv ctx'" by (rule store_inv [OF ready key(1,2) st])
  from ready have wf: "hashindex_wf ?hi" and m: "0 \<le> hash_mask ?hi" "hash_mask ?hi < 2 ^ 31"
    "hash_mask ?hi < table_size ?hi"
    and iok: "index_values_ok ?hi (num_pairs ctx1)" and tn: "t < num_pairs ctx1"
    by (auto simp: dict_store_ready_def)
  note hr = hash_in_range_index [OF wf m, of key]
  from ak hr(1) have "ftgc_hashindex_add_key ?hi
      (int (nat (ftgc_hashindex_generate_key_string ?hi key))) t node_ok = Inr (r', hash_index ctx')"
    by simp
  from add_key_slot(5) [OF iok hr(2,3) t(1) tn order_refl this]
  have "hash_mask (hash_index ctx') = hash_mask ?hi" .
  then have hs: "ftgc_hashindex_generate_key_string (hash_index ctx') key
                  = ftgc_hashindex_generate_key_string ?hi key"
    by (rule hash_same_mask)
  have kt: "dict_key_at ctx' t = Inr key"
    using t ks key live by (simp add: dict_key_at_def set_key_take FTGC_DICT_KEY_BYTES_def)
  have nm: "key_nomatch ctx' key i" if "i \<in> set pre" for i
  proof -
    from that pre have i: "i \<noteq> t" "key_nomatch ctx1 key i" by auto
    show ?thesis
    proof (cases "i = FTGC_HASHINDEX_DELETED")
      case True
      then show ?thesis by (simp add: key_nomatch_def)
    next
      case False
      with i(2) obtain k where k: "dict_key_at ctx1 i = Inr k" "ftgc__keycmp key k \<noteq> 0"
        by (auto simp: key_nomatch_def)
      from ready have live1: "keys_ptr (pairs ctx1) = Ptr_Live" by (simp add: dict_store_ready_def)
      with k have "0 \<le> i" by (auto simp: dict_key_at_def split: if_splits)
      with i(1) t(1) have "nat i \<noteq> nat t" by simp
      with k ks live live1 have "dict_key_at ctx' i = Inr k"
        by (auto simp: dict_key_at_def split: if_splits)
      with k show ?thesis by (auto simp: key_nomatch_def)
    qed
  qed
  from t have td: "t \<noteq> FTGC_HASHINDEX_DELETED" by (simp add: FTGC_HASHINDEX_DELETED_def)
  from nm have "\<forall>i \<in> set pre. key_nomatch ctx' key i" by blast
  from first_match_prefix [OF this td kt keycmp_refl]
  have "dict_first_match ctx' key (pre @ t # suf) = Inr t" .
  with find_index_inv(1) [OF inv', of key] hs split show ?thesis by simp
qed

lemma key_at_grown:
  assumes "dict_inv ctx" and "0 \<le> i" and "i < num_pairs ctx"
  shows "dict_key_at ((if c then dict_grown ctx else ctx)\<lparr>num_pairs := n\<rparr>) i = dict_key_at ctx i"
proof -
  from assms(1) have sz: "dict_size ctx = int (length (keys (pairs ctx)))"
      "length (vals (pairs ctx)) = length (keys (pairs ctx))"
    and n: "num_pairs ctx \<le> dict_size ctx"
    and live: "keys_ptr (pairs ctx) = Ptr_Live"
    by (auto simp: dict_inv_def dict_keys_ok_def)
  from assms(2,3) n sz have "nat i < length (keys (pairs ctx))" by auto
  with dict_grown_fields(1,8) [OF sz live] live show ?thesis
    by (simp add: dict_key_at_def nth_append)
qed

lemma variant_set_string_total:
  assumes "field_type x = FTGC_VARTYPE_STRING \<and> internal_storage x \<noteq> NULL \<longrightarrow>
             mem (internal_storage x) \<noteq> None \<and> internal_storage x \<noteq> value"
    and "mem value \<noteq> None"
  shows "\<exists>copied v mem'. ftgc_variant_set_string x mem value answer = Inr (copied, v, mem')"
  using assms
  by (auto simp: ftgc_variant_set_string_def FTGC__VARIANT_CLEAR_def FTGC_FREE_def Let_def)

subsection \<open>Dictionary: what \<open>ftgc_dict_set_string\<close> returns and stores\<close>

text \<open>The slot that \<open>ftgc_dict_set_string\<close> writes: that of the key when the dictionary
  holds the key, and otherwise slot \<open>num_pairs\<close>, whose variant is a new, void one when the
  arrays are full. The buffer the variant of the slot owns, if it owns one, is freed before
  the copy of the string is allocated, so the allocation of the copy succeeds when the
  allocator answers with a block that is not \<open>NULL\<close> and is not live, or with that
  buffer.\<close>

definition dict_target_slot :: "ftgc_dict_s \<Rightarrow> string \<Rightarrow> int" where
  "dict_target_slot ctx key =
     (case ftgc__dict_find_index_for_key ctx key of
        Inl e \<Rightarrow> num_pairs ctx
      | Inr index \<Rightarrow> if index = FTGC_HASHINDEX_UNUSED then num_pairs ctx else index)"

definition dict_target_variant :: "ftgc_dict_s \<Rightarrow> string \<Rightarrow> ftgc_variant_s" where
  "dict_target_variant ctx key =
     (let void = \<lparr>external_storage = NULL, internal_storage = NULL, field_type = FTGC_VARTYPE_VOID\<rparr>;
          target = dict_target_slot ctx key
      in if 0 \<le> target \<and> nat target < length (vals (pairs ctx))
         then vals (pairs ctx) ! nat target else void)"

definition copy_allocated :: "ftgc_dict_s \<Rightarrow> memory \<Rightarrow> string \<Rightarrow> addr option \<Rightarrow> bool" where
  "copy_allocated ctx mem key answer =
     (case answer of
        None \<Rightarrow> False
      | Some a \<Rightarrow>
          a \<noteq> NULL \<and>
          (mem a = None \<or>
           (field_type (dict_target_variant ctx key) = FTGC_VARTYPE_STRING \<and>
            internal_storage (dict_target_variant ctx key) = a)))"

text \<open>The call grows the arrays when the key is new and every slot is taken.
  \<open>ftgc_hashindex_add_key\<close> allocates a chain node when the cell of the key's hash holds
  another value than the slot and \<open>ftgc__is_value_in_chain\<close> does not find the slot.\<close>

definition growth_needed :: "ftgc_dict_s \<Rightarrow> string \<Rightarrow> bool" where
  "growth_needed ctx key =
     (ftgc__dict_find_index_for_key ctx key = Inr FTGC_HASHINDEX_UNUSED \<and>
      num_pairs ctx = dict_size ctx)"

definition chain_node_needed :: "ftgc_dict_s \<Rightarrow> string \<Rightarrow> bool" where
  "chain_node_needed ctx key =
     (let hi = hash_index ctx;
          hash = nat (ftgc_hashindex_generate_key_string hi key);
          target = dict_target_slot ctx key
      in table hi ! hash \<noteq> FTGC_HASHINDEX_UNUSED \<and>
         table hi ! hash \<noteq> FTGC_HASHINDEX_DELETED \<and>
         table hi ! hash \<noteq> target \<and>
         \<not> ftgc__is_value_in_chain (chain hi ! hash) target)"

lemma set_string_outcome:
  assumes inv: "dict_inv ctx"
    and val: "mem value \<noteq> None"
    and owned: "\<forall>v \<in> set (vals (pairs ctx)).
        field_type v = FTGC_VARTYPE_STRING \<and> internal_storage v \<noteq> NULL \<longrightarrow>
          mem (internal_storage v) \<noteq> None \<and> internal_storage v \<noteq> value"
  shows "\<exists>r ctx' mem'.
      ftgc_dict_set_string ctx mem key value ka vo answer node_ok = Inr (r, ctx', mem')
    \<and> (r = 0 \<or> r = 1)
    \<and> (growth_needed ctx key \<and> (ka = Realloc_NULL \<or> \<not> vo) \<longrightarrow>
           r = 0 \<and> mem' = mem \<and> hash_index ctx' = hash_index ctx \<and>
           num_pairs ctx' = num_pairs ctx \<and> dict_size ctx' = dict_size ctx \<and>
           vals (pairs ctx') = vals (pairs ctx) \<and> (ka = Realloc_NULL \<longrightarrow> ctx' = ctx))
    \<and> ((growth_needed ctx key \<longrightarrow> ka \<noteq> Realloc_NULL \<and> vo) \<and>
        chain_node_needed ctx key \<and> \<not> node_ok \<longrightarrow> r = 0)
    \<and> (ftgc__dict_find_index_for_key ctx key = Inr FTGC_HASHINDEX_UNUSED \<and>
        table (hash_index ctx) ! nat (ftgc_hashindex_generate_key_string (hash_index ctx) key)
           \<noteq> FTGC_HASHINDEX_UNUSED \<longrightarrow> chain_node_needed ctx key)
    \<and> ((growth_needed ctx key \<longrightarrow> ka \<noteq> Realloc_NULL \<and> vo) \<and>
        (chain_node_needed ctx key \<longrightarrow> node_ok) \<and>
        copy_allocated ctx mem key answer \<longrightarrow> r = 1)"
proof -
  let ?hi = "hash_index ctx"
  let ?hk = "ftgc_hashindex_generate_key_string ?hi key"
  let ?its = "slot_values ?hi (nat ?hk)"
  note hr = hash_in_range [OF inv, of key]
  note find = find_index_inv(1) [OF inv, of key]
  from inv have iok: "index_values_ok ?hi (num_pairs ctx)"
    and sz: "dict_size ctx = int (length (keys (pairs ctx)))"
      "length (vals (pairs ctx)) = length (keys (pairs ctx))"
    and n0: "0 \<le> num_pairs ctx"
    and live: "keys_ptr (pairs ctx) = Ptr_Live"
    by (auto simp: dict_inv_def dict_keys_ok_def)
  have newnode: "chain_node_needed ctx key"
    if fu: "ftgc__dict_find_index_for_key ctx key = Inr FTGC_HASHINDEX_UNUSED"
      and occ: "table ?hi ! nat ?hk \<noteq> FTGC_HASHINDEX_UNUSED"
  proof -
    from fu have ts: "dict_target_slot ctx key = num_pairs ctx" by (simp add: dict_target_slot_def)
    from hr have tin: "table ?hi ! nat ?hk \<in> set (table ?hi)"
      and cin: "chain ?hi ! nat ?hk \<in> set (chain ?hi)" by simp_all
    from iok tin occ have tv: "0 \<le> table ?hi ! nat ?hk" "table ?hi ! nat ?hk < num_pairs ctx"
      by (auto simp: index_values_ok_def)
    then have nd: "table ?hi ! nat ?hk \<noteq> FTGC_HASHINDEX_DELETED"
      by (simp add: FTGC_HASHINDEX_DELETED_def)
    from iok cin have "num_pairs ctx \<notin> set (butlast (link_values (chain ?hi ! nat ?hk)))"
      by (auto simp: index_values_ok_def)
    with occ nd tv ts show ?thesis
      by (simp add: chain_node_needed_def Let_def is_value_in_chain_iff)
  qed
  show ?thesis
  proof (rule set_string_target_cases [OF inv, where key = key and ka = ka and vo = vo],
      goal_cases found full new)
    case (found t)
    have ready: "dict_store_ready ctx t" using inv found(2,3) by (rule store_ready_found)
    then have "nat t < length (vals (pairs ctx))" by (auto simp: dict_store_ready_def)
    then have "vals (pairs ctx) ! nat t \<in> set (vals (pairs ctx))" by simp
    with owned val variant_set_string_total [of "vals (pairs ctx) ! nat t" mem "value" answer]
    obtain copied v mem' where
      "ftgc_variant_set_string (vals (pairs ctx) ! nat t) mem value answer = Inr (copied, v, mem')"
      by blast
    from store_total [OF ready this, of key node_ok] obtain r ctx' where
      st: "ftgc__dict_set_string_store ctx mem key value t answer node_ok = Inr (r, ctx', mem')"
      and r: "r = 0 \<or> r = 1"
      and r0: "r = 0 \<longleftrightarrow>
                \<not> node_ok \<and> table ?hi ! nat ?hk \<noteq> FTGC_HASHINDEX_UNUSED \<and>
                table ?hi ! nat ?hk \<noteq> FTGC_HASHINDEX_DELETED \<and> table ?hi ! nat ?hk \<noteq> t \<and>
                \<not> ftgc__is_value_in_chain (chain ?hi ! nat ?hk) t"
      by blast
    from found(2) have tu: "t \<noteq> FTGC_HASHINDEX_UNUSED" by (simp add: FTGC_HASHINDEX_UNUSED_def)
    with found(1) find have nf: "ftgc__dict_find_index_for_key ctx key \<noteq> Inr FTGC_HASHINDEX_UNUSED"
      by simp
    then have ng: "\<not> growth_needed ctx key" by (simp add: growth_needed_def)
    from found(1) find tu have "dict_target_slot ctx key = t" by (simp add: dict_target_slot_def)
    with r0 have rn: "r = 0 \<longleftrightarrow> \<not> node_ok \<and> chain_node_needed ctx key"
      by (simp add: chain_node_needed_def Let_def)
    from found(4) st have "ftgc_dict_set_string ctx mem key value ka vo answer node_ok
        = Inr (r, ctx', mem')" by (simp add: ftgc_dict_set_string_def)
    with r rn nf ng show ?case by auto
  next
    case (full c)
    then have "ftgc_dict_set_string ctx mem key value ka vo answer node_ok = Inr (0, c, mem)"
      by (simp add: ftgc_dict_set_string_def)
    moreover from full(1,2) find have "growth_needed ctx key" by (simp add: growth_needed_def)
    ultimately show ?case using full(3,5-9) newnode by auto
  next
    case new
    let ?c1 = "(if num_pairs ctx = dict_size ctx then dict_grown ctx else ctx)
                 \<lparr>num_pairs := num_pairs ctx + 1\<rparr>"
    let ?t = "num_pairs ctx"
    have ready: "dict_store_ready ?c1 ?t"
      by (rule store_ready_new [OF inv, of "True"]) simp
    then have "nat ?t < length (vals (pairs ?c1))" by (auto simp: dict_store_ready_def)
    then have "vals (pairs ?c1) ! nat ?t \<in> set (vals (pairs ?c1))" by (rule nth_mem)
    with dict_grown_fields(4) [OF sz live]
    have "vals (pairs ?c1) ! nat ?t \<in> set (vals (pairs ctx)) \<or>
          vals (pairs ?c1) ! nat ?t =
            \<lparr>external_storage = NULL, internal_storage = NULL, field_type = FTGC_VARTYPE_VOID\<rparr>"
      by (auto split: if_splits)
    then have "field_type (vals (pairs ?c1) ! nat ?t) = FTGC_VARTYPE_STRING \<and>
               internal_storage (vals (pairs ?c1) ! nat ?t) \<noteq> NULL \<longrightarrow>
                 mem (internal_storage (vals (pairs ?c1) ! nat ?t)) \<noteq> None \<and>
                 internal_storage (vals (pairs ?c1) ! nat ?t) \<noteq> value"
      using owned by auto
    from variant_set_string_total [OF this val, of answer]
    obtain copied v mem' where
      "ftgc_variant_set_string (vals (pairs ?c1) ! nat ?t) mem value answer = Inr (copied, v, mem')"
      by blast
    have hi1: "hash_index ?c1 = ?hi" using dict_grown_fields(7) [OF sz live] by simp
    from store_total [OF ready \<open>ftgc_variant_set_string (vals (pairs ?c1) ! nat ?t) mem value answer
        = Inr (copied, v, mem')\<close>, of key node_ok]
    obtain r ctx' where
      st: "ftgc__dict_set_string_store ?c1 mem key value ?t answer node_ok = Inr (r, ctx', mem')"
      and r: "r = 0 \<or> r = 1"
      and r0: "r = 0 \<longleftrightarrow>
                \<not> node_ok \<and> table ?hi ! nat ?hk \<noteq> FTGC_HASHINDEX_UNUSED \<and>
                table ?hi ! nat ?hk \<noteq> FTGC_HASHINDEX_DELETED \<and> table ?hi ! nat ?hk \<noteq> ?t \<and>
                \<not> ftgc__is_value_in_chain (chain ?hi ! nat ?hk) ?t"
      unfolding hi1 by blast
    from new(1) find have fu: "ftgc__dict_find_index_for_key ctx key = Inr FTGC_HASHINDEX_UNUSED"
      by simp
    then have "dict_target_slot ctx key = ?t" by (simp add: dict_target_slot_def)
    with r0 have rn: "r = 0 \<longleftrightarrow> \<not> node_ok \<and> chain_node_needed ctx key"
      by (simp add: chain_node_needed_def Let_def)
    from new(3) st have set: "ftgc_dict_set_string ctx mem key value ka vo answer node_ok
        = Inr (r, ctx', mem')" by (simp add: ftgc_dict_set_string_def)
    from new(2) fu have g: "growth_needed ctx key \<longrightarrow> ka \<noteq> Realloc_NULL \<and> vo"
      by (simp add: growth_needed_def)
    from set r rn g newnode show ?case by auto
  qed
qed

lemma dict_grown_vals:
  assumes "dict_size ctx = int (length (keys (pairs ctx)))"
    and "length (vals (pairs ctx)) = length (keys (pairs ctx))"
    and "keys_ptr (pairs ctx) = Ptr_Live"
  shows "vals (pairs (dict_grown ctx)) ! length (vals (pairs ctx))
         = \<lparr>external_storage = NULL, internal_storage = NULL, field_type = FTGC_VARTYPE_VOID\<rparr>"
  using assms
  by (auto simp: dict_grown_def ftgc__dict_reallocate_def Let_def nat_add_distrib nth_append
        ftgc_variant_init_def FTGC__VARIANT_ZERO_def FTGC_DICT_KEY_BYTES_def)

lemma variant_copy_result:
  assumes "ftgc_variant_set_string x mem value answer = Inr (copied, v, mem')"
  shows "(case answer of
            None \<Rightarrow> False
          | Some a \<Rightarrow> a \<noteq> NULL \<and>
              (mem a = None \<or> (field_type x = FTGC_VARTYPE_STRING \<and> internal_storage x = a))) \<longrightarrow>
         (\<exists>a. answer = Some a \<and> ftgc_variant_get_string v = a \<and> mem' a = mem value)"
    and "\<not> (case answer of
            None \<Rightarrow> False
          | Some a \<Rightarrow> a \<noteq> NULL \<and>
              (mem a = None \<or> (field_type x = FTGC_VARTYPE_STRING \<and> internal_storage x = a))) \<longrightarrow>
         ftgc_variant_get_string v = NULL"
proof -
  from assms(1) obtain c0 m s where c: "FTGC__VARIANT_CLEAR x mem = Inr (c0, m)"
    and s: "m value = Some s"
    and v: "v = c0\<lparr>field_type := FTGC_VARTYPE_STRING, internal_storage := FTGC_MALLOC m answer\<rparr>"
    and mem': "mem' = (if FTGC_MALLOC m answer = NULL then m else m(FTGC_MALLOC m answer \<mapsto> s))"
    by (rule set_string_result)
  note cr = variant_clear_result [OF c]
  from s cr(2) have ms: "mem value = Some s" by (auto split: if_splits)
  have g: "ftgc_variant_get_string v = FTGC_MALLOC m answer"
    using v cr(1) by (simp add: ftgc_variant_get_string_def)
  show "(case answer of
            None \<Rightarrow> False
          | Some a \<Rightarrow> a \<noteq> NULL \<and>
              (mem a = None \<or> (field_type x = FTGC_VARTYPE_STRING \<and> internal_storage x = a))) \<longrightarrow>
         (\<exists>a. answer = Some a \<and> ftgc_variant_get_string v = a \<and> mem' a = mem value)"
    using g ms mem' cr(2)
    by (auto simp: FTGC_MALLOC_def split: option.splits if_splits)
  show "\<not> (case answer of
            None \<Rightarrow> False
          | Some a \<Rightarrow> a \<noteq> NULL \<and>
              (mem a = None \<or> (field_type x = FTGC_VARTYPE_STRING \<and> internal_storage x = a))) \<longrightarrow>
         ftgc_variant_get_string v = NULL"
    using g cr(2)
    by (auto simp: FTGC_MALLOC_def split: option.splits if_splits)
qed

lemma target_variant_found:
  assumes "dict_inv ctx" and "ftgc__dict_find_index_for_key ctx key = Inr t"
    and "0 \<le> t" and "t < num_pairs ctx"
  shows "dict_target_variant ctx key = vals (pairs ctx) ! nat t"
proof -
  from assms have "nat t < length (vals (pairs ctx))" by (auto simp: dict_inv_def)
  with assms(2,3) show ?thesis
    by (simp add: dict_target_variant_def dict_target_slot_def FTGC_HASHINDEX_UNUSED_def)
qed

lemma target_variant_new:
  assumes "dict_inv ctx" and "ftgc__dict_find_index_for_key ctx key = Inr FTGC_HASHINDEX_UNUSED"
  shows "dict_target_variant ctx key
         = vals (pairs ((if num_pairs ctx = dict_size ctx then dict_grown ctx else ctx)
                          \<lparr>num_pairs := num_pairs ctx + 1\<rparr>)) ! nat (num_pairs ctx)"
proof -
  from assms(1) have sz: "dict_size ctx = int (length (keys (pairs ctx)))"
      "length (vals (pairs ctx)) = length (keys (pairs ctx))"
    and n: "0 \<le> num_pairs ctx" "num_pairs ctx \<le> dict_size ctx"
    and live: "keys_ptr (pairs ctx) = Ptr_Live"
    by (auto simp: dict_inv_def dict_keys_ok_def)
  show ?thesis
  proof (cases "num_pairs ctx = dict_size ctx")
    case True
    with sz have "nat (num_pairs ctx) = length (vals (pairs ctx))" by simp
    with True assms(2) n dict_grown_vals [OF sz live] show ?thesis
      by (simp add: dict_target_variant_def dict_target_slot_def)
  next
    case False
    with n sz have "nat (num_pairs ctx) < length (vals (pairs ctx))" by auto
    with False assms(2) n show ?thesis
      by (simp add: dict_target_variant_def dict_target_slot_def)
  qed
qed

lemma set_string_then_get:
  assumes inv: "dict_inv ctx" and key: "c_string key" "key \<noteq> []"
    and grow: "ftgc__dict_find_index_for_key ctx key = Inr FTGC_HASHINDEX_UNUSED \<and>
               num_pairs ctx = dict_size ctx \<longrightarrow> ka \<noteq> Realloc_NULL \<and> vo"
    and set: "ftgc_dict_set_string ctx mem key value ka vo answer node_ok = Inr (r, ctx', mem')"
  shows "dict_inv ctx'"
    and "length key < FTGC_DICT_KEY_BYTES \<and> copy_allocated ctx mem key answer \<longrightarrow>
          (\<exists>a. answer = Some a \<and> ftgc_dict_get_string ctx' key fallback = Inr a \<and>
                mem' a = mem value)"
    and "length key < FTGC_DICT_KEY_BYTES \<and> \<not> copy_allocated ctx mem key answer \<longrightarrow>
          ftgc_dict_get_string ctx' key fallback = Inr NULL"
    and "FTGC_DICT_KEY_BYTES \<le> length key \<longrightarrow>
          ftgc_dict_get_string ctx' key fallback = Inr fallback \<and>
          num_pairs ctx' = num_pairs ctx + 1"
proof -
  let ?hi = "hash_index ctx"
  let ?hk = "ftgc_hashindex_generate_key_string ?hi key"
  let ?its = "slot_values ?hi (nat ?hk)"
  let ?P = "\<lambda>ctx'. dict_inv ctx'
     \<and> (length key < FTGC_DICT_KEY_BYTES \<and> copy_allocated ctx mem key answer \<longrightarrow>
          (\<exists>a. answer = Some a \<and> ftgc_dict_get_string ctx' key fallback = Inr a \<and>
                mem' a = mem value))
     \<and> (length key < FTGC_DICT_KEY_BYTES \<and> \<not> copy_allocated ctx mem key answer \<longrightarrow>
          ftgc_dict_get_string ctx' key fallback = Inr NULL)
     \<and> (FTGC_DICT_KEY_BYTES \<le> length key \<longrightarrow>
          ftgc_dict_get_string ctx' key fallback = Inr fallback \<and>
          num_pairs ctx' = num_pairs ctx + 1)"
  note hr = hash_in_range [OF inv, of key]
  note find = find_index_inv(1) [OF inv, of key]
  from inv have iok: "index_values_ok ?hi (num_pairs ctx)"
    and kok: "dict_keys_ok (pairs ctx) (num_pairs ctx)"
    and len: "nat (num_pairs ctx) \<le> length (keys (pairs ctx))"
    and sz: "dict_size ctx = int (length (keys (pairs ctx)))"
      "length (vals (pairs ctx)) = length (keys (pairs ctx))"
    by (auto simp: dict_inv_def)
  from kok have live: "keys_ptr (pairs ctx) = Ptr_Live" by (simp add: dict_keys_ok_def)
  note valid = find_index_inv(2) [OF inv, of key]
  have after: "(copy_allocated ctx mem key answer \<longrightarrow>
          (\<exists>a. answer = Some a \<and> ftgc_dict_get_string ctx' key fallback = Inr a \<and>
                mem' a = mem value))
       \<and> (\<not> copy_allocated ctx mem key answer \<longrightarrow>
          ftgc_dict_get_string ctx' key fallback = Inr NULL)"
    if ready: "dict_store_ready ctx1 t"
      and st: "ftgc__dict_set_string_store ctx1 mem key value t answer node_ok = Inr (r, ctx', mem')"
      and hi1: "hash_index ctx1 = ?hi"
      and split: "slot_values (hash_index ctx') (nat ?hk) = pre @ t # suf"
      and pre: "\<forall>i \<in> set pre. i \<noteq> t \<and> key_nomatch ctx1 key i"
      and short: "length key < FTGC_DICT_KEY_BYTES"
      and tv: "dict_target_variant ctx key = vals (pairs ctx1) ! nat t"
    for ctx1 t pre suf
  proof -
    from find_after_store [OF ready key short st _ pre, of suf] split hi1
    have f: "ftgc__dict_find_index_for_key ctx' key = Inr t" by simp
    from store_result [OF ready st] obtain copied v where
      vs: "ftgc_variant_set_string (vals (pairs ctx1) ! nat t) mem value answer = Inr (copied, v, mem')"
      and vals': "vals (pairs ctx') = (vals (pairs ctx1))[nat t := v]"
      by metis
    from ready have t: "0 \<le> t" "nat t < length (vals (pairs ctx1))"
      by (auto simp: dict_store_ready_def)
    from t have tu: "t \<noteq> FTGC_HASHINDEX_UNUSED" by (simp add: FTGC_HASHINDEX_UNUSED_def)
    from f tu t vals' have "ftgc_dict_get_string ctx' key fallback = Inr (ftgc_variant_get_string v)"
      by (simp add: ftgc_dict_get_string_def)
    with variant_copy_result [OF vs] show ?thesis
      unfolding copy_allocated_def tv by simp
  qed
  have "?P ctx'"
  proof (rule set_string_target_cases [OF inv, where key = key and ka = ka and vo = vo],
      goal_cases found full new)
    case (found t)
    from set found(4) have st: "ftgc__dict_set_string_store ctx mem key value t answer node_ok
        = Inr (r, ctx', mem')"
      by (simp add: ftgc_dict_set_string_def)
    have ready: "dict_store_ready ctx t" using inv found(2,3) by (rule store_ready_found)
    have inv': "dict_inv ctx'" by (rule store_inv [OF ready key st])
    from found(2) have tu: "t \<noteq> FTGC_HASHINDEX_UNUSED" by (simp add: FTGC_HASHINDEX_UNUSED_def)
    have nolong: "\<not> FTGC_DICT_KEY_BYTES \<le> length key"
    proof
      assume "FTGC_DICT_KEY_BYTES \<le> length key"
      from first_match_long [OF valid kok len key(1) this] found(1) tu show False by simp
    qed
    from found(1) find have ft: "ftgc__dict_find_index_for_key ctx key = Inr t" by simp
    note tv = target_variant_found [OF inv ft found(2,3)]
    have "(copy_allocated ctx mem key answer \<longrightarrow>
          (\<exists>a. answer = Some a \<and> ftgc_dict_get_string ctx' key fallback = Inr a \<and>
                mem' a = mem value))
       \<and> (\<not> copy_allocated ctx mem key answer \<longrightarrow>
          ftgc_dict_get_string ctx' key fallback = Inr NULL)"
      if short: "length key < FTGC_DICT_KEY_BYTES"
    proof -
      from first_match_found [OF found(1) tu] obtain pre suf where
        sp: "?its = pre @ t # suf" and pre: "\<forall>i \<in> set pre. i \<noteq> t \<and> key_nomatch ctx key i"
        by blast
      from store_result [OF ready st] obtain r' where
        ak: "ftgc_hashindex_add_key ?hi ?hk t node_ok = Inr (r', hash_index ctx')" by metis
      with hr(1) have ak': "ftgc_hashindex_add_key ?hi (int (nat ?hk)) t node_ok
          = Inr (r', hash_index ctx')" by simp
      from sp have "t \<in> set ?its" by simp
      from add_key_slot(7) [OF iok hr(2,3) found(2,3) order_refl ak' this] sp
      have "slot_values (hash_index ctx') (nat ?hk) = pre @ t # suf" by simp
      from after [OF ready st refl this pre short tv] show ?thesis .
    qed
    with inv' nolong show ?case by auto
  next
    case (full c)
    with grow find show ?case by simp
  next
    case new
    let ?c1 = "(if num_pairs ctx = dict_size ctx then dict_grown ctx else ctx)
                 \<lparr>num_pairs := num_pairs ctx + 1\<rparr>"
    let ?t = "num_pairs ctx"
    from set new(3) have st: "ftgc__dict_set_string_store ?c1 mem key value ?t answer node_ok
        = Inr (r, ctx', mem')"
      by (simp add: ftgc_dict_set_string_def)
    have ready: "dict_store_ready ?c1 ?t"
      by (rule store_ready_new [OF inv, of "True"]) simp
    have inv': "dict_inv ctx'" by (rule store_inv [OF ready key st])
    have hi1: "hash_index ?c1 = ?hi" using dict_grown_fields(7) [OF sz live] by simp
    from new(1) find have fu: "ftgc__dict_find_index_for_key ctx key = Inr FTGC_HASHINDEX_UNUSED"
      by simp
    note tv = target_variant_new [OF inv fu]
    from store_result [OF ready st] obtain r' where
      ak: "ftgc_hashindex_add_key (hash_index ?c1)
             (ftgc_hashindex_generate_key_string (hash_index ?c1) key) ?t node_ok
           = Inr (r', hash_index ctx')"
      and n': "num_pairs ctx' = num_pairs ?c1"
      by metis
    from n' have np: "num_pairs ctx' = num_pairs ctx + 1" by simp
    have "(copy_allocated ctx mem key answer \<longrightarrow>
          (\<exists>a. answer = Some a \<and> ftgc_dict_get_string ctx' key fallback = Inr a \<and>
                mem' a = mem value))
       \<and> (\<not> copy_allocated ctx mem key answer \<longrightarrow>
          ftgc_dict_get_string ctx' key fallback = Inr NULL)"
      if short: "length key < FTGC_DICT_KEY_BYTES"
    proof -
      from inv have n0: "0 \<le> ?t" by (simp add: dict_inv_def)
      from ak hi1 hr(1) have ak': "ftgc_hashindex_add_key ?hi (int (nat ?hk)) ?t node_ok
          = Inr (r', hash_index ctx')" by simp
      from add_key_slot(6) [OF iok hr(2,3) n0 _ _ ak', of "?t + 1"]
      obtain pre suf where sp: "slot_values (hash_index ctx') (nat ?hk) = pre @ ?t # suf"
        and sub: "set pre \<subseteq> set ?its" by auto
      have pre: "\<forall>i \<in> set pre. i \<noteq> ?t \<and> key_nomatch ?c1 key i"
      proof
        fix i assume "i \<in> set pre"
        with sub have i: "i \<in> set ?its" by auto
        with valid have iv: "0 \<le> i" "i < ?t" by auto
        from first_match_unused [OF new(1)] i have "key_nomatch ctx key i" by blast
        moreover from key_at_grown [OF inv iv, where c = "num_pairs ctx = dict_size ctx" and n = "?t + 1"]
        have "dict_key_at ?c1 i = dict_key_at ctx i" .
        ultimately have "key_nomatch ?c1 key i" by (simp add: key_nomatch_def)
        with iv show "i \<noteq> ?t \<and> key_nomatch ?c1 key i" by simp
      qed
      from after [OF ready st hi1 sp pre short tv] show ?thesis .
    qed
    with inv' np get_string_long(2) [OF inv' key(1)] show ?case by auto
  qed
  then show "dict_inv ctx'"
    and "length key < FTGC_DICT_KEY_BYTES \<and> copy_allocated ctx mem key answer \<longrightarrow>
          (\<exists>a. answer = Some a \<and> ftgc_dict_get_string ctx' key fallback = Inr a \<and>
                mem' a = mem value)"
    and "length key < FTGC_DICT_KEY_BYTES \<and> \<not> copy_allocated ctx mem key answer \<longrightarrow>
          ftgc_dict_get_string ctx' key fallback = Inr NULL"
    and "FTGC_DICT_KEY_BYTES \<le> length key \<longrightarrow>
          ftgc_dict_get_string ctx' key fallback = Inr fallback \<and>
          num_pairs ctx' = num_pairs ctx + 1"
    by blast+
qed

subsection \<open>Dictionary: the invariant after \<open>ftgc_dict_init\<close>\<close>

text \<open>A word below \<open>2 ^ 30\<close> stays below it under the shifts and the \<open>OR\<close> of
  \<open>ftgc__pow2_roundup\<close>, so the table size of a dictionary made for at most \<open>2 ^ 30\<close>
  pairs is positive and the mask is the size less one. When the four allocations of
  \<open>ftgc_dict_init\<close> succeed, the dictionary satisfies \<open>dict_inv\<close>.\<close>

lemma low_sdrop:
  fixes w :: "32 word"
  assumes "take_bit 30 w = w"
  shows "take_bit 30 (signed_drop_bit n w) = signed_drop_bit n w"
proof (rule bit_word_eqI)
  fix k assume "k < LENGTH(32)"
  have nb: "bit w j \<longrightarrow> j < 30" for j
  proof -
    have "bit w j = bit (take_bit 30 w) j" by (simp only: assms)
    then show ?thesis by (auto simp: bit_take_bit_iff)
  qed
  show "bit (take_bit 30 (signed_drop_bit n w)) k = bit (signed_drop_bit n w) k"
    using nb [of "n + k"] nb [of 31] by (auto simp: bit_take_bit_iff bit_signed_drop_bit_iff)
qed

lemma low_step:
  fixes w :: "32 word"
  assumes "take_bit 30 w = w"
  shows "take_bit 30 (w OR signed_drop_bit n w) = w OR signed_drop_bit n w"
  using assms low_sdrop [OF assms, of n] by (simp add: take_bit_or)

lemma pow2_roundup_range:
  assumes "1 \<le> x" and "x \<le> 2 ^ 30"
  shows "\<exists>v :: 32 word. ftgc__pow2_roundup (word_of_int x) = v + 1 \<and> uint v < 2 ^ 30"
proof -
  define v0 :: "32 word" where "v0 = word_of_int x - 1"
  have "v0 = word_of_int (x - 1)" by (simp add: v0_def)
  then have "uint v0 = uint (word_of_int (x - 1) :: 32 word)" by (simp only:)
  also have "\<dots> = (x - 1) mod 2 ^ LENGTH(32)" by (rule uint_word_of_int)
  also have "\<dots> = x - 1" using assms by simp
  finally have "uint v0 = x - 1" .
  note \<open>uint v0 = x - 1\<close>
  have u0: "uint v0 < 2 ^ 30" using \<open>uint v0 = x - 1\<close> assms by simp
  have "uint (take_bit 30 v0) = take_bit 30 (uint v0)" by (simp add: unsigned_take_bit_eq)
  also have "\<dots> = uint v0" using u0 by (simp add: take_bit_int_eq_self)
  finally have l0: "take_bit 30 v0 = v0" by (simp only: word_uint_eq_iff)
  define v1 where "v1 = v0 OR signed_drop_bit 1 v0"
  define v2 where "v2 = v1 OR signed_drop_bit 2 v1"
  define v3 where "v3 = v2 OR signed_drop_bit 4 v2"
  define v4 where "v4 = v3 OR signed_drop_bit 8 v3"
  define v5 where "v5 = v4 OR signed_drop_bit 16 v4"
  have l1: "take_bit 30 v1 = v1" unfolding v1_def by (rule low_step [OF l0])
  have l2: "take_bit 30 v2 = v2" unfolding v2_def by (rule low_step [OF l1])
  have l3: "take_bit 30 v3 = v3" unfolding v3_def by (rule low_step [OF l2])
  have l4: "take_bit 30 v4 = v4" unfolding v4_def by (rule low_step [OF l3])
  have l5: "take_bit 30 v5 = v5" unfolding v5_def by (rule low_step [OF l4])
  have "uint v5 = uint (take_bit 30 v5)" by (simp only: l5)
  also have "\<dots> = take_bit 30 (uint v5)" by (simp add: unsigned_take_bit_eq)
  also have "\<dots> < 2 ^ 30" by (rule take_bit_int_less_exp)
  finally have "uint v5 < 2 ^ 30" .
  moreover have "ftgc__pow2_roundup (word_of_int x) = v5 + 1"
    by (simp only: ftgc__pow2_roundup_def Let_def v0_def v1_def v2_def v3_def v4_def v5_def)
  ultimately show ?thesis by blast
qed

lemma dict_init_inv:
  assumes "1 \<le> size0" and "size0 \<le> 2 ^ 30"
  shows "\<exists>ctx. ftgc_dict_init size0 hash_size True True True True = Inr ctx \<and> dict_inv ctx
           \<and> dict_size ctx = size0 \<and> num_pairs ctx = 0"
proof -
  from pow2_roundup_range [OF assms] obtain v :: "32 word"
    where p: "ftgc__pow2_roundup (word_of_int size0) = v + 1" and v: "uint v < 2 ^ 30" by blast
  have "uint (v + 1) = uint v + 1" using v by (simp add: uint_plus_if')
  moreover have "sint (v + 1) = uint (v + 1)" using v calculation by (intro sint_small) simp
  ultimately have ts: "sint (v + 1) = uint v + 1" by simp
  have "(word_of_int (sint (v + 1)) :: 32 word) - 1 = v" by simp
  moreover have sv: "sint v = uint v" using v by (intro sint_small) simp
  ultimately have hm: "sint ((word_of_int (sint (v + 1)) :: 32 word) - 1) = uint v" by simp
  show ?thesis
    using assms v
    by (simp add: ftgc_dict_init_def ftgc_hashindex_init_def Let_def p ts hm sv dict_inv_def
        dict_keys_ok_def hashindex_wf_def index_values_ok_def ftgc_variant_init_def
        FTGC_HASHINDEX_UNUSED_def)
qed

subsection \<open>Dictionary: a small dictionary\<close>

lemmas dict_eval = ftgc_dict_set_string_def ftgc__dict_set_string_target_def
  ftgc__dict_set_string_store_def ftgc__dict_find_index_for_key_def ftgc__dict_find_loop.simps
  ftgc__dict_find_empty_slot_def ftgc__dict_reallocate_def ftgc_dict_get_string_def
  ftgc_hashindex_generate_key_string_def ftgc__hash_step_def char_to_uint32_def
  ftgc__dict_set_key_def dict_key_at_def c_tolower_def FTGC_DICT_KEY_BYTES_def

lemmas dict_inv_eval = dict_inv_def dict_keys_ok_def index_values_ok_def hashindex_wf_def
  c_string_def FTGC_DICT_KEY_BYTES_def FTGC_HASHINDEX_UNUSED_def

lemma init_dict_2: "ftgc_dict_init 2 2 True True True True =
  Inr \<lparr>dict_size = 2, num_pairs = 0,
       pairs = \<lparr>keys = [None, None], keys_ptr = Ptr_Live,
                vals = [\<lparr>external_storage = 0, internal_storage = 0, field_type = FTGC_VARTYPE_VOID\<rparr>,
                        \<lparr>external_storage = 0, internal_storage = 0, field_type = FTGC_VARTYPE_VOID\<rparr>]\<rparr>,
       hash_index = \<lparr>table = [-1, -1], chain = [Hashlink (-1) None, Hashlink (-1) None],
                     table_size = 2, hash_mask = 1\<rparr>\<rparr>"
  by (simp add: ftgc_dict_init_def init_2 variant_eval numeral_eq_Suc)

lemma inv0: "dict_inv \<lparr>dict_size = 2, num_pairs = 0,
       pairs = \<lparr>keys = [None, None], keys_ptr = Ptr_Live,
                vals = [\<lparr>external_storage = 0, internal_storage = 0, field_type = FTGC_VARTYPE_VOID\<rparr>,
                        \<lparr>external_storage = 0, internal_storage = 0, field_type = FTGC_VARTYPE_VOID\<rparr>]\<rparr>,
       hash_index = \<lparr>table = [-1, -1], chain = [Hashlink (-1) None, Hashlink (-1) None],
                     table_size = 2, hash_mask = 1\<rparr>\<rparr>"
  by (simp add: dict_inv_eval)


section \<open>The properties of the hash index\<close>

text \<open>
  \<^bold>\<open>C1\<close>. The comment of \<open>ftgc_hashindex_add_key\<close> says that no duplicate value can be
  added to the chain, and the chain of a key starts at its table cell (the comments of
  \<open>ftgc_hashindex_remove_first\<close> and \<open>ftgc_hashindex_iter_get_first\<close> call the cell the first
  entry of the chain). The code does not keep that: on an index of two cells, after
  adding 5 and 6 under key 0 and removing the first entry, adding 6 again stores it in the
  table cell without looking at the chain, which holds 6 already. The loop over the key then
  sees 6 twice.
\<close>

theorem add_key_duplicates_after_remove_first:
  "ftgc_hashindex_init 2 True True =
     (1, \<lparr>table = [-1, -1], chain = [Hashlink (-1) None, Hashlink (-1) None],
       table_size = 2, hash_mask = 1\<rparr>)
   \<and> ftgc_hashindex_add_key
      \<lparr>table = [-1, -1], chain = [Hashlink (-1) None, Hashlink (-1) None],
       table_size = 2, hash_mask = 1\<rparr> 0 5 True
     = Inr (0, \<lparr>table = [5, -1], chain = [Hashlink (-1) None, Hashlink (-1) None],
       table_size = 2, hash_mask = 1\<rparr>)
   \<and> ftgc_hashindex_add_key
      \<lparr>table = [5, -1], chain = [Hashlink (-1) None, Hashlink (-1) None],
       table_size = 2, hash_mask = 1\<rparr> 0 6 True
     = Inr (1, \<lparr>table = [5, -1], chain = [Hashlink 6 (Some (Hashlink (-1) None)), Hashlink (-1) None],
       table_size = 2, hash_mask = 1\<rparr>)
   \<and> ftgc_hashindex_remove_first
      \<lparr>table = [5, -1], chain = [Hashlink 6 (Some (Hashlink (-1) None)), Hashlink (-1) None],
       table_size = 2, hash_mask = 1\<rparr> 0
     = Inr \<lparr>table = [-2, -1], chain = [Hashlink 6 (Some (Hashlink (-1) None)), Hashlink (-1) None],
       table_size = 2, hash_mask = 1\<rparr>
   \<and> ftgc_hashindex_add_key
      \<lparr>table = [-2, -1], chain = [Hashlink 6 (Some (Hashlink (-1) None)), Hashlink (-1) None],
       table_size = 2, hash_mask = 1\<rparr> 0 6 True
     = Inr (0, \<lparr>table = [6, -1], chain = [Hashlink 6 (Some (Hashlink (-1) None)), Hashlink (-1) None],
       table_size = 2, hash_mask = 1\<rparr>)
   \<and> ftgc_hashindex_iterate
      \<lparr>table = [6, -1], chain = [Hashlink 6 (Some (Hashlink (-1) None)), Hashlink (-1) None],
       table_size = 2, hash_mask = 1\<rparr> 0
     = Inr [6, 6]"
  by (simp add: init_2 hi_eval ftgc_hashindex_iterate_def ftgc__iterate_from.simps)

text \<open>
  \<^bold>\<open>C4\<close> (as amended). \<open>ftgc_hashindex_iter_get_first\<close> returns the table slot's value
  as it is, \<open>FTGC_HASHINDEX_DELETED\<close> included, and the caller's loop goes on after it;
  \<open>ftgc_hashindex_iter_get_next\<close> itself skips the chain nodes whose value is
  \<open>FTGC_HASHINDEX_DELETED\<close>. So the values the loop sees are the table value followed by
  the chain's values other than \<open>FTGC_HASHINDEX_DELETED\<close>, in chain order, up to the first
  \<open>FTGC_HASHINDEX_UNUSED\<close> (or the end of the chain).
\<close>

theorem iteration_skips_deleted_chain_nodes:
  assumes "hashindex_wf ctx" and "0 \<le> key" and "key < table_size ctx"
  shows "(\<exists>iter. ftgc_hashindex_iter_get_first ctx key = Inr (table ctx ! nat key, iter))
       \<and> ftgc_hashindex_iterate ctx key =
           Inr (if table ctx ! nat key = FTGC_HASHINDEX_UNUSED then []
                else table ctx ! nat key #
                     takeWhile (\<lambda>v. v \<noteq> FTGC_HASHINDEX_UNUSED)
                       (filter (\<lambda>v. v \<noteq> FTGC_HASHINDEX_DELETED)
                          (link_values (chain ctx ! nat key))))"
proof -
  from assms have k: "nat key < length (table ctx)" "nat key < length (chain ctx)"
    by (auto simp: hashindex_wf_def)
  with assms(2) show ?thesis
    by (simp add: iterate_eq chain_yield_def ftgc_hashindex_iter_get_first_def)
qed

theorem iteration_skips_deleted_chain_nodes_witness:
  "(\<exists>iter. ftgc_hashindex_iter_get_first
        \<lparr>table = [-2, -1],
         chain = [Hashlink 11 (Some (Hashlink (-2) (Some (Hashlink 12 (Some (Hashlink (-1) None)))))),
                  Hashlink (-1) None],
         table_size = 2, hash_mask = 1\<rparr> 0 = Inr (-2, iter))
   \<and> ftgc_hashindex_iterate
        \<lparr>table = [-2, -1],
         chain = [Hashlink 11 (Some (Hashlink (-2) (Some (Hashlink 12 (Some (Hashlink (-1) None)))))),
                  Hashlink (-1) None],
         table_size = 2, hash_mask = 1\<rparr> 0 = Inr [-2, 11, 12]"
  using iteration_skips_deleted_chain_nodes
     [of "\<lparr>table = [-2, -1],
         chain = [Hashlink 11 (Some (Hashlink (-2) (Some (Hashlink 12 (Some (Hashlink (-1) None)))))),
                  Hashlink (-1) None],
         table_size = 2, hash_mask = 1\<rparr>" 0]
  by (simp add: hashindex_wf_def FTGC_HASHINDEX_UNUSED_def FTGC_HASHINDEX_DELETED_def)

text \<open>
  The claim as stated, that the iterator skips nothing and yields every
  \<open>FTGC_HASHINDEX_DELETED\<close> of the chain, fails: adding 12 behind 10 and 11, reading 11
  with \<open>ftgc_hashindex_iter_get_next\<close> and removing it with
  \<open>ftgc_hashindex_iter_remove_current\<close> leaves the chain \<open>[DELETED, 12, UNUSED]\<close>, and the
  loop then sees 10 and 12 only.
\<close>

theorem iteration_yields_every_deleted_counterexample:
  "ftgc_hashindex_add_key
      \<lparr>table = [10, -1], chain = [Hashlink 11 (Some (Hashlink (-1) None)), Hashlink (-1) None],
       table_size = 2, hash_mask = 1\<rparr> 0 12 True
     = Inr (1, \<lparr>table = [10, -1],
                chain = [Hashlink 11 (Some (Hashlink 12 (Some (Hashlink (-1) None)))), Hashlink (-1) None],
                table_size = 2, hash_mask = 1\<rparr>)
   \<and> ftgc_hashindex_iter_get_next
      \<lparr>table = [10, -1],
       chain = [Hashlink 11 (Some (Hashlink 12 (Some (Hashlink (-1) None)))), Hashlink (-1) None],
       table_size = 2, hash_mask = 1\<rparr>
      \<lparr>current_node = Some (0, 0), prev_node = None\<rparr>
     = Inr (11, \<lparr>current_node = Some (0, 1), prev_node = Some (0, 0)\<rparr>)
   \<and> ftgc_hashindex_iter_remove_current
      \<lparr>table = [10, -1],
       chain = [Hashlink 11 (Some (Hashlink 12 (Some (Hashlink (-1) None)))), Hashlink (-1) None],
       table_size = 2, hash_mask = 1\<rparr>
      \<lparr>current_node = Some (0, 1), prev_node = Some (0, 0)\<rparr>
     = Inr \<lparr>table = [10, -1],
            chain = [Hashlink (-2) (Some (Hashlink 12 (Some (Hashlink (-1) None)))), Hashlink (-1) None],
            table_size = 2, hash_mask = 1\<rparr>
   \<and> link_values (chain
        \<lparr>table = [10, -1],
         chain = [Hashlink (-2) (Some (Hashlink 12 (Some (Hashlink (-1) None)))), Hashlink (-1) None],
         table_size = 2, hash_mask = 1\<rparr> ! 0) = [FTGC_HASHINDEX_DELETED, 12, FTGC_HASHINDEX_UNUSED]
   \<and> ftgc_hashindex_iterate
        \<lparr>table = [10, -1],
         chain = [Hashlink (-2) (Some (Hashlink 12 (Some (Hashlink (-1) None)))), Hashlink (-1) None],
         table_size = 2, hash_mask = 1\<rparr> 0 = Inr [10, 12]"
  by (simp add: hi_eval ftgc_hashindex_iterate_def ftgc__iterate_from.simps)

text \<open>
  \<^bold>\<open>C6\<close>. \<open>ftgc_hashindex_add_key\<close> writes the value into the end node of the chain
  before it allocates the next node (its comment: there is always one unused node), and
  \<open>ftgc__is_value_in_chain\<close> does not look at the end node. When the allocation fails the
  call returns -1 and the value stays in the end node, so the chain has no unused node any
  more. On an index of two cells to which 10 and 11 were added under key 0, adding 12 with a
  failing allocation leaves the chain \<open>[11, 12]\<close>, and the loop over the key sees 10, 11 and 12.
  Adding 12 again with a failing allocation returns -1, not 1, although the chain holds 12;
  and adding 13 writes it over 12, so that the loop sees 10, 11 and 13.
\<close>

theorem add_key_after_out_of_memory:
  "ftgc_hashindex_init 2 True True =
     (1, \<lparr>table = [-1, -1], chain = [Hashlink (-1) None, Hashlink (-1) None],
       table_size = 2, hash_mask = 1\<rparr>)
   \<and> ftgc_hashindex_add_key
      \<lparr>table = [-1, -1], chain = [Hashlink (-1) None, Hashlink (-1) None],
       table_size = 2, hash_mask = 1\<rparr> 0 10 True
     = Inr (0, \<lparr>table = [10, -1], chain = [Hashlink (-1) None, Hashlink (-1) None],
       table_size = 2, hash_mask = 1\<rparr>)
   \<and> ftgc_hashindex_add_key
      \<lparr>table = [10, -1], chain = [Hashlink (-1) None, Hashlink (-1) None],
       table_size = 2, hash_mask = 1\<rparr> 0 11 True
     = Inr (1, \<lparr>table = [10, -1], chain = [Hashlink 11 (Some (Hashlink (-1) None)), Hashlink (-1) None],
       table_size = 2, hash_mask = 1\<rparr>)
   \<and> ftgc_hashindex_add_key
      \<lparr>table = [10, -1], chain = [Hashlink 11 (Some (Hashlink (-1) None)), Hashlink (-1) None],
       table_size = 2, hash_mask = 1\<rparr> 0 12 False
     = Inr (-1, \<lparr>table = [10, -1], chain = [Hashlink 11 (Some (Hashlink 12 None)), Hashlink (-1) None],
       table_size = 2, hash_mask = 1\<rparr>)
   \<and> ftgc_hashindex_iterate
      \<lparr>table = [10, -1], chain = [Hashlink 11 (Some (Hashlink 12 None)), Hashlink (-1) None],
       table_size = 2, hash_mask = 1\<rparr> 0
     = Inr [10, 11, 12]
   \<and> ftgc_hashindex_add_key
      \<lparr>table = [10, -1], chain = [Hashlink 11 (Some (Hashlink 12 None)), Hashlink (-1) None],
       table_size = 2, hash_mask = 1\<rparr> 0 12 False
     = Inr (-1, \<lparr>table = [10, -1], chain = [Hashlink 11 (Some (Hashlink 12 None)), Hashlink (-1) None],
       table_size = 2, hash_mask = 1\<rparr>)
   \<and> ftgc_hashindex_add_key
      \<lparr>table = [10, -1], chain = [Hashlink 11 (Some (Hashlink 12 None)), Hashlink (-1) None],
       table_size = 2, hash_mask = 1\<rparr> 0 13 True
     = Inr (1, \<lparr>table = [10, -1], chain = [Hashlink 11 (Some (Hashlink 13 (Some (Hashlink (-1) None)))), Hashlink (-1) None],
       table_size = 2, hash_mask = 1\<rparr>)
   \<and> ftgc_hashindex_iterate
      \<lparr>table = [10, -1], chain = [Hashlink 11 (Some (Hashlink 13 (Some (Hashlink (-1) None)))), Hashlink (-1) None],
       table_size = 2, hash_mask = 1\<rparr> 0
     = Inr [10, 11, 13]"
  by (simp add: init_2 hi_eval ftgc_hashindex_iterate_def ftgc__iterate_from.simps)

text \<open>
  \<^bold>\<open>C7\<close>. For a key in range, after \<open>ftgc_hashindex_remove_first\<close> the slot reads
  \<open>FTGC_HASHINDEX_DELETED\<close>; \<open>ftgc_hashindex_add_key\<close> on that slot then stores the value
  in the table, returns 0 and leaves the chains alone, and the slot reads the value.
\<close>

theorem tombstone_reuse:
  assumes "hashindex_wf ctx" and "0 \<le> key" and "key < table_size ctx"
  shows "\<exists>c1 it1 c2 it2.
           ftgc_hashindex_remove_first ctx key = Inr c1
         \<and> ftgc_hashindex_iter_get_first c1 key = Inr (FTGC_HASHINDEX_DELETED, it1)
         \<and> ftgc_hashindex_add_key c1 key v malloc_ok = Inr (0, c2)
         \<and> table c2 ! nat key = v
         \<and> chain c2 = chain ctx
         \<and> ftgc_hashindex_iter_get_first c2 key = Inr (v, it2)"
  using assms
  by (simp add: hashindex_wf_def ftgc_hashindex_remove_first_def
        ftgc_hashindex_iter_get_first_def ftgc_hashindex_add_key_def)

theorem tombstone_reuse_witness:
  "\<exists>c1 it1 c2 it2.
       ftgc_hashindex_remove_first
         \<lparr>table = [7, -1], chain = [Hashlink 9 (Some (Hashlink (-1) None)), Hashlink (-1) None],
          table_size = 2, hash_mask = 1\<rparr> 0 = Inr c1
     \<and> ftgc_hashindex_iter_get_first c1 0 = Inr (FTGC_HASHINDEX_DELETED, it1)
     \<and> ftgc_hashindex_add_key c1 0 5 True = Inr (0, c2)
     \<and> table c2 ! nat 0 = 5
     \<and> chain c2 = [Hashlink 9 (Some (Hashlink (-1) None)), Hashlink (-1) None]
     \<and> ftgc_hashindex_iter_get_first c2 0 = Inr (5, it2)"
  using tombstone_reuse [of "\<lparr>table = [7, -1], chain = [Hashlink 9 (Some (Hashlink (-1) None)), Hashlink (-1) None],
          table_size = 2, hash_mask = 1\<rparr>" 0 5 True]
  by (simp add: hashindex_wf_def)

text \<open>
  \<^bold>\<open>C10\<close>. The asserted conditions of \<open>ftgc_hashindex_remove_first\<close> and
  \<open>ftgc_hashindex_iter_get_first\<close> accept \<open>key = table_size\<close>, where \<open>table[key]\<close> is one
  past the end of the table; every key with \<open>0 \<le> key < table_size\<close> is accepted too and is
  inside the table.
\<close>

theorem key_range_assert_off_by_one:
  assumes "hashindex_wf ctx" and "0 \<le> table_size ctx"
  shows "ftgc_hashindex_remove_first_pre ctx (table_size ctx)
       \<and> ftgc_hashindex_remove_first ctx (table_size ctx) = Inl OutOfBounds
       \<and> ftgc_hashindex_iter_get_first_pre ctx (table_size ctx)
       \<and> ftgc_hashindex_iter_get_first ctx (table_size ctx) = Inl OutOfBounds
       \<and> (\<forall>key. 0 \<le> key \<and> key < table_size ctx \<longrightarrow>
             ftgc_hashindex_remove_first_pre ctx key
           \<and> ftgc_hashindex_iter_get_first_pre ctx key
           \<and> ftgc_hashindex_remove_first ctx key \<noteq> Inl OutOfBounds
           \<and> ftgc_hashindex_iter_get_first ctx key \<noteq> Inl OutOfBounds)"
  using assms
  by (auto simp: hashindex_wf_def ftgc_hashindex_remove_first_pre_def
        ftgc_hashindex_iter_get_first_pre_def ftgc_hashindex_remove_first_def
        ftgc_hashindex_iter_get_first_def)

theorem key_range_assert_off_by_one_witness:
  "ftgc_hashindex_remove_first_pre
      \<lparr>table = [7, -1], chain = [Hashlink (-1) None, Hashlink (-1) None],
       table_size = 2, hash_mask = 1\<rparr> 2
   \<and> ftgc_hashindex_remove_first
      \<lparr>table = [7, -1], chain = [Hashlink (-1) None, Hashlink (-1) None],
       table_size = 2, hash_mask = 1\<rparr> 2 = Inl OutOfBounds
   \<and> ftgc_hashindex_iter_get_first_pre
      \<lparr>table = [7, -1], chain = [Hashlink (-1) None, Hashlink (-1) None],
       table_size = 2, hash_mask = 1\<rparr> 2
   \<and> ftgc_hashindex_iter_get_first
      \<lparr>table = [7, -1], chain = [Hashlink (-1) None, Hashlink (-1) None],
       table_size = 2, hash_mask = 1\<rparr> 2 = Inl OutOfBounds
   \<and> ftgc_hashindex_remove_first
      \<lparr>table = [7, -1], chain = [Hashlink (-1) None, Hashlink (-1) None],
       table_size = 2, hash_mask = 1\<rparr> 1 \<noteq> Inl OutOfBounds"
  using key_range_assert_off_by_one
     [of "\<lparr>table = [7, -1], chain = [Hashlink (-1) None, Hashlink (-1) None],
       table_size = 2, hash_mask = 1\<rparr>"]
  by (simp add: hashindex_wf_def)

subsection \<open>Hash index: what holds in every state\<close>

text \<open>
  In every index that \<open>ftgc_hashindex_init\<close> followed by calls of
  \<open>ftgc_hashindex_add_key\<close> (whether or not their allocation succeeds) and
  \<open>ftgc_hashindex_remove_first\<close> can reach, the nodes of a chain before its end node hold
  pairwise different values, and the end node holds either \<open>FTGC_HASHINDEX_UNUSED\<close> or a
  value none of the others holds.
\<close>

lemma chain_nodes_distinct:
  assumes "hashindex_reachable ctx" and "k < length (chain ctx)"
  shows "distinct (butlast (link_values (chain ctx ! k)))"
    and "last (link_values (chain ctx ! k)) = FTGC_HASHINDEX_UNUSED \<or>
         last (link_values (chain ctx ! k)) \<notin> set (butlast (link_values (chain ctx ! k)))"
proof -
  from assms have "chain_inv (chain ctx ! k)" using reachable_chain_inv by auto
  then show "distinct (butlast (link_values (chain ctx ! k)))"
    and "last (link_values (chain ctx ! k)) = FTGC_HASHINDEX_UNUSED \<or>
       last (link_values (chain ctx ! k)) \<notin> set (butlast (link_values (chain ctx ! k)))"
    by (simp_all add: chain_inv_def)
qed

text \<open>
  For an index whose arrays have \<open>table_size\<close> entries and a key in range,
  \<open>ftgc_hashindex_add_key\<close> stores the value in the table cell and returns 0 when the cell
  is unused or deleted; returns 1 and changes nothing when the value is the cell's value or
  is held by a node of the chain before its end node; otherwise writes the value into the
  chain's end node and, when the allocation succeeds, links a new unused end node and
  returns 1, and when it fails returns -1.
\<close>

lemma add_key_in_every_state:
  assumes "hashindex_wf ctx" and "0 \<le> key" and "key < table_size ctx"
  shows "(table ctx ! nat key = FTGC_HASHINDEX_UNUSED \<or> table ctx ! nat key = FTGC_HASHINDEX_DELETED \<longrightarrow>
            ftgc_hashindex_add_key ctx key v malloc_ok =
              Inr (0, ctx\<lparr>table := (table ctx)[nat key := v]\<rparr>))
       \<and> (table ctx ! nat key \<noteq> FTGC_HASHINDEX_UNUSED \<and> table ctx ! nat key \<noteq> FTGC_HASHINDEX_DELETED \<and>
          (v = table ctx ! nat key \<or> v \<in> set (butlast (link_values (chain ctx ! nat key)))) \<longrightarrow>
            ftgc_hashindex_add_key ctx key v malloc_ok = Inr (1, ctx))
       \<and> (table ctx ! nat key \<noteq> FTGC_HASHINDEX_UNUSED \<and> table ctx ! nat key \<noteq> FTGC_HASHINDEX_DELETED \<and>
          v \<noteq> table ctx ! nat key \<and> v \<notin> set (butlast (link_values (chain ctx ! nat key))) \<longrightarrow>
            (\<exists>c'. ftgc_hashindex_add_key ctx key v True =
                     Inr (1, ctx\<lparr>chain := (chain ctx)[nat key := c']\<rparr>) \<and>
                   link_values c' =
                     butlast (link_values (chain ctx ! nat key)) @ [v, FTGC_HASHINDEX_UNUSED]) \<and>
            (\<exists>c'. ftgc_hashindex_add_key ctx key v False =
                     Inr (-1, ctx\<lparr>chain := (chain ctx)[nat key := c']\<rparr>) \<and>
                   link_values c' = butlast (link_values (chain ctx ! nat key)) @ [v]))"
proof -
  from assms have k: "nat key < length (table ctx)" "nat key < length (chain ctx)"
    by (auto simp: hashindex_wf_def)
  have "\<exists>c'. ctx\<lparr>chain := (chain ctx)[nat key := chain_store (chain ctx ! nat key) v ok]\<rparr>
              = ctx\<lparr>chain := (chain ctx)[nat key := c']\<rparr>
            \<and> link_values c' = butlast (link_values (chain ctx ! nat key)) @
                  (if ok then [v, FTGC_HASHINDEX_UNUSED] else [v])" for ok
    by (rule exI [of _ "chain_store (chain ctx ! nat key) v ok"])
       (simp add: link_values_chain_store)
  from this [of True] this [of False] show ?thesis
    by (simp add: add_key_cases [OF assms(2) k])
qed


section \<open>The properties of the resizable array\<close>

lemma new_elem_count_result:
  assumes "c \<le> 1431655744" and "c + r < 2 ^ 64"
  shows "ftgc__default_new_elem_count c r
         = Inr (max (round_to_float (3 * round_to_float c) div 2) (c + r))"
  using product_defined [OF assms(1)] assms(2)
  by (auto simp: ftgc__default_new_elem_count_def Let_def max_def)

lemma new_elem_count_exact:
  assumes "3 * c < 2 ^ 24"
  shows "round_to_float (3 * round_to_float c) div 2 = (3 * c) div 2"
proof -
  from assms have "c < 2 ^ 24" by simp
  then have "round_to_float c = c" by (rule round_to_float_exact)
  with assms show ?thesis by (simp add: round_to_float_exact)
qed

text \<open>The bytes of a block for at most \<open>2 ^ 32\<close> elements of at most \<open>2 ^ 31\<close> bytes do not
  wrap around.\<close>

lemma new_bytes_room:
  fixes n item_sz :: nat
  assumes "n \<le> 2 ^ 32" and "0 < item_sz" and "item_sz \<le> 2 ^ 31"
  shows "(n * item_sz + 16) mod 2 ^ 64 = n * item_sz + 16"
    and "(n * item_sz + 16 - 16) div item_sz = n"
proof -
  from assms(1,3) have "n * item_sz \<le> 2 ^ 32 * 2 ^ 31" by (rule mult_le_mono)
  then have "n * item_sz + 16 < 2 ^ 64" by simp
  then show "(n * item_sz + 16) mod 2 ^ 64 = n * item_sz + 16" by simp
  from assms(2) show "(n * item_sz + 16 - 16) div item_sz = n" by simp
qed

lemma new_elem_count_bound:
  assumes "c \<le> 1431655744" and "c + r \<le> 2 ^ 32"
  shows "max (round_to_float (3 * round_to_float c) div 2) (c + r) \<le> 2 ^ 32"
  using product_defined [OF assms(1)] assms(2) by simp

lemma array_grow_result:
  assumes "c \<le> 1431655744" and "c + r \<le> 2 ^ 32" and "0 < item_sz" and "item_sz \<le> 2 ^ 31"
    and "c = (case a of None \<Rightarrow> 0 | Some x \<Rightarrow> raw_size x)"
  shows "ftgc__array_grow a r item_sz True =
     (let n = max (round_to_float (3 * round_to_float c) div 2) (c + r);
          r0 = (case a of
                  None \<Rightarrow> \<lparr> raw_size = 0, raw_count = 0, items = [], alloc_elems = n \<rparr>
                | Some x \<Rightarrow> x\<lparr>alloc_elems := n\<rparr>);
          r1 = (if c = 0 then r0\<lparr>raw_size := 0, raw_count := 0, items := []\<rparr> else r0)
      in Inr (Some (r1\<lparr>raw_size := c + r\<rparr>)))"
proof -
  let ?n = "max (round_to_float (3 * round_to_float c) div 2) (c + r)"
  from assms(2) have lt: "c + r < 2 ^ 64" by simp
  have n: "ftgc__default_new_elem_count c r = Inr ?n"
    using assms(1) lt by (rule new_elem_count_result)
  note b = new_bytes_room [OF new_elem_count_bound [OF assms(1,2)] assms(3,4)]
  from lt have m: "(c + r) mod 2 ^ 64 = c + r" "r mod 2 ^ 64 = r" by simp_all
  show ?thesis
    using n b m assms(5)
    by (cases a) (simp_all add: ftgc__array_grow_def ftgc__array_size_def Let_def)
qed

lemmas array_eval = ftgc_array_append_def ftgc__array_grow_if_needed_def
  ftgc__array_test_needs_to_grow_def array_wf_def array_capacity_def ftgc__array_size_def
  ftgc_array_count_def ftgc_array_init_def ftgc_array_reserve_def Let_def

text \<open>
  \<^bold>\<open>C5\<close> (as amended). Let the elements have at most \<open>2 ^ 31\<close> bytes. A successful
  \<open>ftgc__array_grow\<close> by \<open>r > 0\<close> elements of an array of capacity \<open>c \<le> 1431655744\<close> (0 for
  the \<open>NULL\<close> array), with \<open>c + r \<le> 2 ^ 32\<close>, leaves the capacity \<open>c + r\<close>, which is more
  than \<open>c\<close>; the block it reallocates has room for the larger of \<open>(int)((float)c * 1.5f)\<close>
  and \<open>c + r\<close> elements, and the former is \<open>\<lfloor>3c/2\<rfloor>\<close> while \<open>3c < 2 ^ 24\<close>.
  \<open>ftgc_array_init\<close> leaves an array whose count is at most its capacity; and when the count
  is at most the capacity before an append whose growth, if one was needed, succeeded, then
  the append returns, the count is one more and it is again at most the capacity.
\<close>

theorem array_growth:
  "(0 < r \<and> array_capacity a \<le> 1431655744 \<and> array_capacity a + r \<le> 2 ^ 32 \<and>
    0 < item_sz \<and> item_sz \<le> 2 ^ 31 \<longrightarrow>
      (\<exists>a'. ftgc__array_grow a r item_sz True = Inr (Some a')
         \<and> ftgc__array_size a' = array_capacity a + r
         \<and> array_capacity a < ftgc__array_size a'
         \<and> alloc_elems a'
             = max (round_to_float (3 * round_to_float (array_capacity a)) div 2)
                   (array_capacity a + r)
         \<and> (3 * array_capacity a < 2 ^ 24 \<longrightarrow>
              alloc_elems a' = max ((3 * array_capacity a) div 2) (array_capacity a + r))
         \<and> (array_wf a \<longrightarrow> array_wf (Some a'))))
   \<and> (n \<le> 2 ^ 32 \<and> 0 < item_sz \<and> item_sz \<le> 2 ^ 31 \<longrightarrow>
      (\<exists>a0. ftgc_array_init n item_sz ok = Inr a0 \<and> array_wf (a0 :: 'a ftgc_array_s option)))
   \<and> (array_wf a \<and> array_capacity a \<le> 1431655744 \<and> 0 < item_sz \<and> item_sz \<le> 2 ^ 31 \<and>
       (ftgc__array_test_needs_to_grow a 1 \<longrightarrow> realloc_ok) \<longrightarrow>
      (\<exists>a'. ftgc_array_append a d item_sz realloc_ok = Inr (Some a')
         \<and> raw_count a' = ftgc_array_count a + 1
         \<and> raw_count a' \<le> ftgc__array_size a'
         \<and> items a' = (case a of None \<Rightarrow> [] | Some x \<Rightarrow> items x) @ [d]
         \<and> array_wf (Some a')))"
proof (intro conjI impI)
  assume h: "0 < r \<and> array_capacity a \<le> 1431655744 \<and> array_capacity a + r \<le> 2 ^ 32 \<and>
    0 < item_sz \<and> item_sz \<le> 2 ^ 31"
  then have g: "ftgc__array_grow a r item_sz True =
     (let n = max (round_to_float (3 * round_to_float (array_capacity a)) div 2)
                  (array_capacity a + r);
          r0 = (case a of
                  None \<Rightarrow> \<lparr> raw_size = 0, raw_count = 0, items = [], alloc_elems = n \<rparr>
                | Some x \<Rightarrow> x\<lparr>alloc_elems := n\<rparr>);
          r1 = (if array_capacity a = 0
                then r0\<lparr>raw_size := 0, raw_count := 0, items := []\<rparr> else r0)
      in Inr (Some (r1\<lparr>raw_size := array_capacity a + r\<rparr>)))"
    by (intro array_grow_result)
       (auto simp: array_capacity_def ftgc__array_size_def split: option.splits)
  show "\<exists>a'. ftgc__array_grow a r item_sz True = Inr (Some a')
         \<and> ftgc__array_size a' = array_capacity a + r
         \<and> array_capacity a < ftgc__array_size a'
         \<and> alloc_elems a'
             = max (round_to_float (3 * round_to_float (array_capacity a)) div 2)
                   (array_capacity a + r)
         \<and> (3 * array_capacity a < 2 ^ 24 \<longrightarrow>
              alloc_elems a' = max ((3 * array_capacity a) div 2) (array_capacity a + r))
         \<and> (array_wf a \<longrightarrow> array_wf (Some a'))"
    unfolding g using h
    by (cases a) (auto simp: Let_def array_wf_def array_capacity_def ftgc__array_size_def
          new_elem_count_exact)
next
  assume h: "n \<le> 2 ^ 32 \<and> 0 < item_sz \<and> item_sz \<le> 2 ^ 31"
  have z: "round_to_float 0 = 0" by (simp add: round_to_float_exact)
  from h have "ftgc__array_grow (None :: 'a ftgc_array_s option) n item_sz True =
      Inr (Some \<lparr>raw_size = n, raw_count = 0, items = [], alloc_elems = n\<rparr>)"
    using array_grow_result [of 0 n item_sz "None :: 'a ftgc_array_s option"] z by simp
  moreover have "ftgc__array_grow (None :: 'a ftgc_array_s option) n item_sz False = Inr None"
    using new_elem_count_result [of 0 n] h z
    by (simp add: ftgc__array_grow_def Let_def)
  ultimately show "\<exists>a0. ftgc_array_init n item_sz ok = Inr a0 \<and> array_wf (a0 :: 'a ftgc_array_s option)"
    by (cases ok) (simp_all add: ftgc_array_init_def ftgc_array_reserve_def array_wf_def)
next
  assume h: "array_wf a \<and> array_capacity a \<le> 1431655744 \<and> 0 < item_sz \<and> item_sz \<le> 2 ^ 31 \<and>
       (ftgc__array_test_needs_to_grow a 1 \<longrightarrow> realloc_ok)"
  then have g: "ftgc__array_grow a 1 item_sz True =
     (let n = max (round_to_float (3 * round_to_float (array_capacity a)) div 2)
                  (array_capacity a + 1);
          r0 = (case a of
                  None \<Rightarrow> \<lparr> raw_size = 0, raw_count = 0, items = [], alloc_elems = n \<rparr>
                | Some x \<Rightarrow> x\<lparr>alloc_elems := n\<rparr>);
          r1 = (if array_capacity a = 0
                then r0\<lparr>raw_size := 0, raw_count := 0, items := []\<rparr> else r0)
      in Inr (Some (r1\<lparr>raw_size := array_capacity a + 1\<rparr>)))"
    by (intro array_grow_result)
       (auto simp: array_capacity_def ftgc__array_size_def split: option.splits)
  show "\<exists>a'. ftgc_array_append a d item_sz realloc_ok = Inr (Some a')
         \<and> raw_count a' = ftgc_array_count a + 1
         \<and> raw_count a' \<le> ftgc__array_size a'
         \<and> items a' = (case a of None \<Rightarrow> [] | Some x \<Rightarrow> items x) @ [d]
         \<and> array_wf (Some a')"
  proof (cases "ftgc__array_test_needs_to_grow a 1")
    case True
    with h have ok: realloc_ok by simp
    from True ok have e: "ftgc__array_grow_if_needed a 1 item_sz realloc_ok
        = ftgc__array_grow a 1 item_sz True"
      by (simp add: ftgc__array_grow_if_needed_def)
    show ?thesis
      unfolding ftgc_array_append_def e g using h True
      by (cases a) (auto simp: Let_def array_wf_def array_capacity_def ftgc__array_size_def
            ftgc_array_count_def ftgc__array_test_needs_to_grow_def)
  next
    case False
    then obtain x where x: "a = Some x" and c: "raw_count x + 1 \<le> raw_size x"
      using h
      by (cases a) (auto simp: ftgc__array_test_needs_to_grow_def ftgc_array_count_def
            ftgc__array_size_def array_wf_def array_capacity_def)
    from h x have "raw_size x \<le> 1431655744" by (simp add: array_capacity_def ftgc__array_size_def)
    with c have "(raw_count x + 1) mod 2 ^ 64 = raw_count x + 1" by simp
    with False x c h show ?thesis
      by (auto simp: ftgc_array_append_def ftgc__array_grow_if_needed_def array_wf_def
            ftgc_array_count_def ftgc__array_size_def)
  qed
qed

theorem array_growth_witness:
  "ftgc__array_grow (Some \<lparr>raw_size = 4, raw_count = 4, items = [0, 1, 2, 3 :: int], alloc_elems = 4\<rparr>) 1 4 True
     = Inr (Some \<lparr>raw_size = 5, raw_count = 4, items = [0, 1, 2, 3], alloc_elems = 6\<rparr>)
   \<and> ftgc_array_append (Some \<lparr>raw_size = 4, raw_count = 4, items = [0, 1, 2, 3 :: int], alloc_elems = 4\<rparr>) 4 4 True
     = Inr (Some \<lparr>raw_size = 5, raw_count = 5, items = [0, 1, 2, 3, 4], alloc_elems = 6\<rparr>)"
proof -
  let ?a = "Some \<lparr>raw_size = 4, raw_count = 4, items = [0, 1, 2, 3 :: int], alloc_elems = 4\<rparr>"
  have wf: "array_wf ?a" and c: "array_capacity ?a = 4" and g: "ftgc__array_test_needs_to_grow ?a 1"
    and k: "ftgc_array_count ?a = 4"
    by (simp_all add: array_wf_def array_capacity_def ftgc__array_size_def
          ftgc__array_test_needs_to_grow_def ftgc_array_count_def)
  from array_growth [of 1 ?a 4 0 True True 4] wf c g k
  obtain a1 a2 where 1: "ftgc__array_grow ?a 1 4 True = Inr (Some a1)"
      "ftgc__array_size a1 = 5" "alloc_elems a1 = 6"
    and 2: "ftgc_array_append ?a 4 4 True = Inr (Some a2)" "raw_count a2 = 5"
      "raw_count a2 \<le> ftgc__array_size a2" "items a2 = [0, 1, 2, 3, 4]"
    by auto
  have e1: "ftgc__array_grow ?a 1 4 True
     = Inr (Some \<lparr>raw_size = 5, raw_count = 4, items = [0, 1, 2, 3], alloc_elems = 6\<rparr>)"
    using array_grow_result [of 4 1 4 ?a] by (simp add: new_elem_count_exact)
  then have e2: "ftgc_array_append ?a 4 4 True
     = Inr (Some \<lparr>raw_size = 5, raw_count = 5, items = [0, 1, 2, 3, 4], alloc_elems = 6\<rparr>)"
    by (simp add: array_eval)
  from 1 2 e1 e2 show ?thesis by simp
qed

text \<open>
  The claim as stated, that the capacity after a growth is \<open>max \<lfloor>3c/2\<rfloor> (c + r)\<close>,
  fails for the full array of capacity 4, of elements of 4 bytes, that grows by 1: the
  capacity becomes 5, as the test \<open>ftgc__test_array_basic\<close> asserts
  (\<open>ftgc__array_size(i) == j+1\<close>), and not 6.
\<close>

theorem array_capacity_counterexample:
  "ftgc__array_grow (Some \<lparr>raw_size = 4, raw_count = 4, items = [0, 1, 2, 3 :: int], alloc_elems = 4\<rparr>) 1 4 True
     = Inr (Some \<lparr>raw_size = 5, raw_count = 4, items = [0, 1, 2, 3], alloc_elems = 6\<rparr>)
   \<and> ftgc__array_size \<lparr>raw_size = 5, raw_count = 4, items = [0, 1, 2, 3 :: int], alloc_elems = 6\<rparr>
       \<noteq> max ((3 * 4) div 2) (4 + 1)"
  using array_grow_result [of 4 1 4
      "Some \<lparr>raw_size = 4, raw_count = 4, items = [0, 1, 2, 3 :: int], alloc_elems = 4\<rparr>"]
  by (simp add: new_elem_count_exact ftgc__array_size_def)


section \<open>The properties of the variant\<close>

text \<open>
  \<^bold>\<open>C3\<close> (as amended). When the allocation inside \<open>ftgc_variant_set_string\<close> fails, the
  call returns 0 and leaves the variant with the type \<open>FTGC_VARTYPE_STRING\<close> and both
  string pointers \<open>NULL\<close>: it owns nothing, and the buffer it owned before, if any, has
  been freed. The call does return so whenever \<open>str\<close> is a live string that is not the
  variant's own buffer.
\<close>

theorem set_string_alloc_failure:
  "(ftgc_variant_set_string ctx mem str answer = Inr (r, ctx', mem') \<and>
      (answer = None \<or> r \<noteq> 1) \<longrightarrow>
        r = 0
      \<and> field_type ctx' = FTGC_VARTYPE_STRING
      \<and> internal_storage ctx' = NULL \<and> external_storage ctx' = NULL
      \<and> mem' = (if field_type ctx = FTGC_VARTYPE_STRING \<and> internal_storage ctx \<noteq> NULL
                then FTGC_FREE mem (internal_storage ctx) else mem))
   \<and> ((field_type ctx = FTGC_VARTYPE_STRING \<and> internal_storage ctx \<noteq> NULL \<longrightarrow>
          mem (internal_storage ctx) \<noteq> None \<and> str \<noteq> internal_storage ctx) \<and>
       mem str \<noteq> None \<longrightarrow>
         (\<exists>ctx' mem'. ftgc_variant_set_string ctx mem str None = Inr (0, ctx', mem')))"
proof (intro conjI impI)
  assume a: "ftgc_variant_set_string ctx mem str answer = Inr (r, ctx', mem') \<and>
      (answer = None \<or> r \<noteq> 1)"
  then obtain c0 m s where c: "FTGC__VARIANT_CLEAR ctx mem = Inr (c0, m)" and s: "m str = Some s"
    and ctx': "ctx' = c0\<lparr>field_type := FTGC_VARTYPE_STRING, internal_storage := FTGC_MALLOC m answer\<rparr>"
    and r: "r = (if FTGC_MALLOC m answer = NULL then 0 else 1)"
    and mem': "mem' = (if FTGC_MALLOC m answer = NULL then m else m(FTGC_MALLOC m answer \<mapsto> s))"
    by (auto elim: set_string_result)
  from a r have z: "FTGC_MALLOC m answer = NULL"
    by (auto simp: FTGC_MALLOC_def split: if_splits)
  note cr = variant_clear_result [OF c]
  show "r = 0" using r z by simp
  show "field_type ctx' = FTGC_VARTYPE_STRING" using ctx' by simp
  show "internal_storage ctx' = NULL" using ctx' z by simp
  show "external_storage ctx' = NULL" using ctx' cr(1) by simp
  show "mem' = (if field_type ctx = FTGC_VARTYPE_STRING \<and> internal_storage ctx \<noteq> NULL
                then FTGC_FREE mem (internal_storage ctx) else mem)"
    using mem' z cr(2) by (simp add: FTGC_FREE_def)
next
  assume "(field_type ctx = FTGC_VARTYPE_STRING \<and> internal_storage ctx \<noteq> NULL \<longrightarrow>
          mem (internal_storage ctx) \<noteq> None \<and> str \<noteq> internal_storage ctx) \<and>
       mem str \<noteq> None"
  then show "\<exists>ctx' mem'. ftgc_variant_set_string ctx mem str None = Inr (0, ctx', mem')"
    by (auto simp: variant_eval)
qed

theorem set_string_alloc_failure_witness:
  "ftgc_variant_set_string
      \<lparr>external_storage = 0, internal_storage = 200, field_type = FTGC_VARTYPE_STRING\<rparr>
      [100 \<mapsto> ''hello'', 200 \<mapsto> ''old''] 100 None
     = Inr (0, \<lparr>external_storage = 0, internal_storage = 0, field_type = FTGC_VARTYPE_STRING\<rparr>,
            [100 \<mapsto> ''hello''])
   \<and> FTGC_FREE [100 \<mapsto> ''hello'', 200 \<mapsto> ''old''] 200 = [100 \<mapsto> ''hello'']"
  using set_string_alloc_failure
    [of "\<lparr>external_storage = 0, internal_storage = 200, field_type = FTGC_VARTYPE_STRING\<rparr>"
        "[100 \<mapsto> ''hello'', 200 \<mapsto> ''old'']" 100 None 0
        "\<lparr>external_storage = 0, internal_storage = 0, field_type = FTGC_VARTYPE_STRING\<rparr>"
        "[100 \<mapsto> ''hello'']"]
  by (auto simp: variant_eval)

text \<open>
  The claim as stated, that the variant is left with the type \<open>FTGC_VARTYPE_VOID\<close>, fails
  on a freshly initialised variant: the type is set to \<open>FTGC_VARTYPE_STRING\<close> before the
  allocation and is not reset when it fails.
\<close>

theorem set_string_alloc_failure_counterexample:
  "ftgc_variant_set_string
      (ftgc_variant_init \<lparr>external_storage = 0, internal_storage = 0, field_type = FTGC_VARTYPE_VOID\<rparr>)
      [100 \<mapsto> ''hello''] 100 None
     = Inr (0, \<lparr>external_storage = 0, internal_storage = 0, field_type = FTGC_VARTYPE_STRING\<rparr>,
            [100 \<mapsto> ''hello''])
   \<and> field_type \<lparr>external_storage = 0, internal_storage = 0, field_type = FTGC_VARTYPE_STRING\<rparr>
       \<noteq> FTGC_VARTYPE_VOID"
  by (simp add: variant_eval)



section \<open>The properties of the dictionary\<close>

text \<open>
  \<^bold>\<open>C2\<close> (as amended). Let the dictionary be as \<open>ftgc_dict_init\<close> and the calls of
  \<open>ftgc_dict_set_string\<close> that did not fail to grow the arrays leave it (\<open>dict_inv\<close>), with
  fewer than \<open>2 ^ 27\<close> slots, so that no \<open>int\<close> of the code overflows; let \<open>value\<close> point
  to a string, and let every buffer a variant of the dictionary owns be live and another
  one than \<open>value\<close>. Then \<open>ftgc_dict_set_string\<close> returns 0 or 1, and
  \<^item> it returns 0 when it has to grow the arrays (the key is new and every slot is taken) and
    one of the two reallocations of \<open>ftgc__dict_reallocate\<close> fails; the memory of the
    strings, the hash index, the variants and the counts are then as before, and the whole
    dictionary is when it was the first reallocation that failed;
  \<^item> it returns 0 when the hash index needs a chain node and cannot allocate it
    (\<open>ftgc_hashindex_add_key\<close> returns -1), which is so for every new key whose cell is
    taken;
  \<^item> it returns 1 when every allocation it makes succeeds: the two reallocations if it has
    to grow the arrays, that of the chain node if the hash index needs one, and that of the
    copy of the string (\<open>copy_allocated\<close>).
\<close>

theorem set_string_failures:
  assumes inv: "dict_inv ctx" and small: "dict_size ctx < 2 ^ 27"
    and val: "mem value \<noteq> None"
    and owned: "\<forall>v \<in> set (vals (pairs ctx)).
        field_type v = FTGC_VARTYPE_STRING \<and> internal_storage v \<noteq> NULL \<longrightarrow>
          mem (internal_storage v) \<noteq> None \<and> internal_storage v \<noteq> value"
  shows "\<exists>r ctx' mem'.
      ftgc_dict_set_string ctx mem key value ka vo answer node_ok = Inr (r, ctx', mem')
    \<and> (r = 0 \<or> r = 1)
    \<and> (growth_needed ctx key \<and> (ka = Realloc_NULL \<or> \<not> vo) \<longrightarrow>
           r = 0 \<and> mem' = mem \<and> hash_index ctx' = hash_index ctx \<and>
           num_pairs ctx' = num_pairs ctx \<and> dict_size ctx' = dict_size ctx \<and>
           vals (pairs ctx') = vals (pairs ctx) \<and> (ka = Realloc_NULL \<longrightarrow> ctx' = ctx))
    \<and> ((growth_needed ctx key \<longrightarrow> ka \<noteq> Realloc_NULL \<and> vo) \<and>
        chain_node_needed ctx key \<and> \<not> node_ok \<longrightarrow> r = 0)
    \<and> (ftgc__dict_find_index_for_key ctx key = Inr FTGC_HASHINDEX_UNUSED \<and>
        table (hash_index ctx) ! nat (ftgc_hashindex_generate_key_string (hash_index ctx) key)
           \<noteq> FTGC_HASHINDEX_UNUSED \<longrightarrow> chain_node_needed ctx key)
    \<and> ((growth_needed ctx key \<longrightarrow> ka \<noteq> Realloc_NULL \<and> vo) \<and>
        (chain_node_needed ctx key \<longrightarrow> node_ok) \<and>
        copy_allocated ctx mem key answer \<longrightarrow> r = 1)"
  using inv val owned by (rule set_string_outcome)

text \<open>
  A dictionary of two pairs that holds the key \<open>a\<close>, and then one that holds \<open>a\<close> and \<open>c\<close>:
  all three keys hash to cell 1. Setting \<open>c\<close> succeeds when every allocation does. Setting
  \<open>e\<close> in the full dictionary returns 0 when the reallocation of the keys fails, when the
  reallocation of the variants fails, and when the chain node cannot be allocated.
\<close>

theorem set_string_failures_witness:
  "ftgc_dict_set_string
       \<lparr>dict_size = 2, num_pairs = 1,
        pairs = \<lparr>keys = [Some ''a'', None], keys_ptr = Ptr_Live,
                 vals = [\<lparr>external_storage = 0, internal_storage = 200, field_type = FTGC_VARTYPE_STRING\<rparr>,
                         \<lparr>external_storage = 0, internal_storage = 0, field_type = FTGC_VARTYPE_VOID\<rparr>]\<rparr>,
        hash_index = \<lparr>table = [-1, 0], chain = [Hashlink (-1) None, Hashlink (-1) None],
                      table_size = 2, hash_mask = 1\<rparr>\<rparr>
       [100 \<mapsto> ''v1'', 200 \<mapsto> ''v1''] ''c'' 100 Realloc_Moved True (Some 201) True
     = Inr (1, \<lparr>dict_size = 2, num_pairs = 2,
        pairs = \<lparr>keys = [Some ''a'', Some ''c''], keys_ptr = Ptr_Live,
                 vals = [\<lparr>external_storage = 0, internal_storage = 200, field_type = FTGC_VARTYPE_STRING\<rparr>,
                         \<lparr>external_storage = 0, internal_storage = 201, field_type = FTGC_VARTYPE_STRING\<rparr>]\<rparr>,
        hash_index = \<lparr>table = [-1, 0],
                      chain = [Hashlink (-1) None, Hashlink 1 (Some (Hashlink (-1) None))],
                      table_size = 2, hash_mask = 1\<rparr>\<rparr>,
        [100 \<mapsto> ''v1'', 200 \<mapsto> ''v1'', 201 \<mapsto> ''v1''])
   \<and> ftgc_dict_set_string
       \<lparr>dict_size = 2, num_pairs = 2,
        pairs = \<lparr>keys = [Some ''a'', Some ''c''], keys_ptr = Ptr_Live,
                 vals = [\<lparr>external_storage = 0, internal_storage = 200, field_type = FTGC_VARTYPE_STRING\<rparr>,
                         \<lparr>external_storage = 0, internal_storage = 201, field_type = FTGC_VARTYPE_STRING\<rparr>]\<rparr>,
        hash_index = \<lparr>table = [-1, 0],
                      chain = [Hashlink (-1) None, Hashlink 1 (Some (Hashlink (-1) None))],
                      table_size = 2, hash_mask = 1\<rparr>\<rparr>
       [100 \<mapsto> ''v1'', 200 \<mapsto> ''v1'', 201 \<mapsto> ''v1''] ''e'' 100 Realloc_NULL True (Some 202) True
     = Inr (0, \<lparr>dict_size = 2, num_pairs = 2,
        pairs = \<lparr>keys = [Some ''a'', Some ''c''], keys_ptr = Ptr_Live,
                 vals = [\<lparr>external_storage = 0, internal_storage = 200, field_type = FTGC_VARTYPE_STRING\<rparr>,
                         \<lparr>external_storage = 0, internal_storage = 201, field_type = FTGC_VARTYPE_STRING\<rparr>]\<rparr>,
        hash_index = \<lparr>table = [-1, 0],
                      chain = [Hashlink (-1) None, Hashlink 1 (Some (Hashlink (-1) None))],
                      table_size = 2, hash_mask = 1\<rparr>\<rparr>,
        [100 \<mapsto> ''v1'', 200 \<mapsto> ''v1'', 201 \<mapsto> ''v1''])
   \<and> fst (projr (ftgc_dict_set_string
       \<lparr>dict_size = 2, num_pairs = 2,
        pairs = \<lparr>keys = [Some ''a'', Some ''c''], keys_ptr = Ptr_Live,
                 vals = [\<lparr>external_storage = 0, internal_storage = 200, field_type = FTGC_VARTYPE_STRING\<rparr>,
                         \<lparr>external_storage = 0, internal_storage = 201, field_type = FTGC_VARTYPE_STRING\<rparr>]\<rparr>,
        hash_index = \<lparr>table = [-1, 0],
                      chain = [Hashlink (-1) None, Hashlink 1 (Some (Hashlink (-1) None))],
                      table_size = 2, hash_mask = 1\<rparr>\<rparr>
       [100 \<mapsto> ''v1'', 200 \<mapsto> ''v1'', 201 \<mapsto> ''v1''] ''e'' 100 Realloc_Moved False (Some 202) True)) = 0
   \<and> fst (projr (ftgc_dict_set_string
       \<lparr>dict_size = 2, num_pairs = 2,
        pairs = \<lparr>keys = [Some ''a'', Some ''c''], keys_ptr = Ptr_Live,
                 vals = [\<lparr>external_storage = 0, internal_storage = 200, field_type = FTGC_VARTYPE_STRING\<rparr>,
                         \<lparr>external_storage = 0, internal_storage = 201, field_type = FTGC_VARTYPE_STRING\<rparr>]\<rparr>,
        hash_index = \<lparr>table = [-1, 0],
                      chain = [Hashlink (-1) None, Hashlink 1 (Some (Hashlink (-1) None))],
                      table_size = 2, hash_mask = 1\<rparr>\<rparr>
       [100 \<mapsto> ''v1'', 200 \<mapsto> ''v1'', 201 \<mapsto> ''v1''] ''e'' 100 Realloc_Moved True (Some 202) False)) = 0"
proof -
  let ?d1 = "\<lparr>dict_size = 2, num_pairs = 1,
        pairs = \<lparr>keys = [Some ''a'', None], keys_ptr = Ptr_Live,
                 vals = [\<lparr>external_storage = 0, internal_storage = 200, field_type = FTGC_VARTYPE_STRING\<rparr>,
                         \<lparr>external_storage = 0, internal_storage = 0, field_type = FTGC_VARTYPE_VOID\<rparr>]\<rparr>,
        hash_index = \<lparr>table = [-1, 0], chain = [Hashlink (-1) None, Hashlink (-1) None],
                      table_size = 2, hash_mask = 1\<rparr>\<rparr>"
  let ?d2 = "\<lparr>dict_size = 2, num_pairs = 2,
        pairs = \<lparr>keys = [Some ''a'', Some ''c''], keys_ptr = Ptr_Live,
                 vals = [\<lparr>external_storage = 0, internal_storage = 200, field_type = FTGC_VARTYPE_STRING\<rparr>,
                         \<lparr>external_storage = 0, internal_storage = 201, field_type = FTGC_VARTYPE_STRING\<rparr>]\<rparr>,
        hash_index = \<lparr>table = [-1, 0],
                      chain = [Hashlink (-1) None, Hashlink 1 (Some (Hashlink (-1) None))],
                      table_size = 2, hash_mask = 1\<rparr>\<rparr>"
  let ?m1 = "[100 \<mapsto> ''v1'', 200 \<mapsto> ''v1'']"
  let ?m2 = "[100 \<mapsto> ''v1'', 200 \<mapsto> ''v1'', 201 \<mapsto> ''v1'']"
  have inv1: "dict_inv ?d1" by (simp add: dict_inv_eval)
  have inv2: "dict_inv ?d2" by (simp add: dict_inv_eval numeral_eq_Suc less_Suc_eq)
  have find: "ftgc__dict_find_index_for_key ?d2 ''e'' = Inr FTGC_HASHINDEX_UNUSED"
    by (simp add: dict_eval hi_eval)
  then have grow: "growth_needed ?d2 ''e''" by (simp add: growth_needed_def)
  have cell: "table (hash_index ?d2) ! nat (ftgc_hashindex_generate_key_string (hash_index ?d2) ''e'')
      \<noteq> FTGC_HASHINDEX_UNUSED"
    by (simp add: dict_eval hi_eval)
  have find1: "ftgc__dict_find_index_for_key ?d1 ''c'' = Inr FTGC_HASHINDEX_UNUSED"
    by (simp add: dict_eval hi_eval)
  then have nogrow: "\<not> growth_needed ?d1 ''c''" by (simp add: growth_needed_def)
  have ca: "copy_allocated ?d1 ?m1 ''c'' (Some 201)"
    by (simp add: copy_allocated_def NULL_def)
  have a: "ftgc_dict_set_string ?d1 ?m1 ''c'' 100 Realloc_Moved True (Some 201) True = Inr (1, ?d2, ?m2)"
  proof -
    from set_string_failures [of ?d1 ?m1 100 "''c''" Realloc_Moved True "Some 201" True] inv1 ca nogrow
    obtain r c m where "ftgc_dict_set_string ?d1 ?m1 ''c'' 100 Realloc_Moved True (Some 201) True
        = Inr (r, c, m)" and "r = 1"
      by (auto simp: NULL_def)
    moreover have "ftgc_dict_set_string ?d1 ?m1 ''c'' 100 Realloc_Moved True (Some 201) True
        = Inr (1, ?d2, ?m2)"
      by (simp add: dict_eval hi_eval variant_eval)
    ultimately show ?thesis by simp
  qed
  have b: "ftgc_dict_set_string ?d2 ?m2 ''e'' 100 Realloc_NULL True (Some 202) True = Inr (0, ?d2, ?m2)"
    using set_string_failures [of ?d2 ?m2 100 "''e''" Realloc_NULL True "Some 202" True] inv2 grow
    by (auto simp: NULL_def)
  have b': "fst (projr (ftgc_dict_set_string ?d2 ?m2 ''e'' 100 Realloc_Moved False (Some 202) True)) = 0"
    using set_string_failures [of ?d2 ?m2 100 "''e''" Realloc_Moved False "Some 202" True] inv2 grow
    by (auto simp: NULL_def)
  have c: "fst (projr (ftgc_dict_set_string ?d2 ?m2 ''e'' 100 Realloc_Moved True (Some 202) False)) = 0"
    using set_string_failures [of ?d2 ?m2 100 "''e''" Realloc_Moved True "Some 202" False] inv2 find cell
    by (auto simp: NULL_def)
  from a b b' c show ?thesis by simp
qed

text \<open>
  \<^bold>\<open>C2\<close> as it is stated does not hold: in the dictionary that holds the key \<open>a\<close>, setting
  the key \<open>c\<close> needs no growth of the arrays and the copy of the string succeeds, and the
  call returns 0, because the hash index could not allocate the chain node.
\<close>

theorem set_string_failure_counterexample:
  "ftgc_dict_set_string
       \<lparr>dict_size = 2, num_pairs = 0,
        pairs = \<lparr>keys = [None, None], keys_ptr = Ptr_Live,
                 vals = [\<lparr>external_storage = 0, internal_storage = 0, field_type = FTGC_VARTYPE_VOID\<rparr>,
                         \<lparr>external_storage = 0, internal_storage = 0, field_type = FTGC_VARTYPE_VOID\<rparr>]\<rparr>,
        hash_index = \<lparr>table = [-1, -1], chain = [Hashlink (-1) None, Hashlink (-1) None],
                      table_size = 2, hash_mask = 1\<rparr>\<rparr>
       [100 \<mapsto> ''v1''] ''a'' 100 Realloc_Moved True (Some 200) True
     = Inr (1, \<lparr>dict_size = 2, num_pairs = 1,
        pairs = \<lparr>keys = [Some ''a'', None], keys_ptr = Ptr_Live,
                 vals = [\<lparr>external_storage = 0, internal_storage = 200, field_type = FTGC_VARTYPE_STRING\<rparr>,
                         \<lparr>external_storage = 0, internal_storage = 0, field_type = FTGC_VARTYPE_VOID\<rparr>]\<rparr>,
        hash_index = \<lparr>table = [-1, 0], chain = [Hashlink (-1) None, Hashlink (-1) None],
                      table_size = 2, hash_mask = 1\<rparr>\<rparr>,
        [100 \<mapsto> ''v1'', 200 \<mapsto> ''v1''])
   \<and> ftgc_dict_set_string
       \<lparr>dict_size = 2, num_pairs = 1,
        pairs = \<lparr>keys = [Some ''a'', None], keys_ptr = Ptr_Live,
                 vals = [\<lparr>external_storage = 0, internal_storage = 200, field_type = FTGC_VARTYPE_STRING\<rparr>,
                         \<lparr>external_storage = 0, internal_storage = 0, field_type = FTGC_VARTYPE_VOID\<rparr>]\<rparr>,
        hash_index = \<lparr>table = [-1, 0], chain = [Hashlink (-1) None, Hashlink (-1) None],
                      table_size = 2, hash_mask = 1\<rparr>\<rparr>
       [100 \<mapsto> ''v1'', 200 \<mapsto> ''v1''] ''c'' 100 Realloc_Moved True (Some 201) False
     = Inr (0, \<lparr>dict_size = 2, num_pairs = 2,
        pairs = \<lparr>keys = [Some ''a'', Some ''c''], keys_ptr = Ptr_Live,
                 vals = [\<lparr>external_storage = 0, internal_storage = 200, field_type = FTGC_VARTYPE_STRING\<rparr>,
                         \<lparr>external_storage = 0, internal_storage = 201, field_type = FTGC_VARTYPE_STRING\<rparr>]\<rparr>,
        hash_index = \<lparr>table = [-1, 0],
                      chain = [Hashlink (-1) None, Hashlink 1 None],
                      table_size = 2, hash_mask = 1\<rparr>\<rparr>,
        [100 \<mapsto> ''v1'', 200 \<mapsto> ''v1'', 201 \<mapsto> ''v1''])"
  by (simp add: dict_eval hi_eval variant_eval)

text \<open>
  \<^bold>\<open>C9\<close>. \<open>ftgc_dict_set_string\<close> does not look at what \<open>ftgc_variant_set_string\<close>
  returns (its comment: fixme: return 0 if this fails). On the dictionary that
  \<open>ftgc_dict_init\<close> makes for two pairs, setting the key \<open>a\<close>, of one character, while the
  allocator has no memory for the copy of the string returns 1, and \<open>ftgc_dict_get_string\<close>
  with the same key then returns \<open>NULL\<close>: neither the string that was set nor the fallback.
\<close>

theorem set_string_ignores_failed_copy:
  "ftgc_dict_init 2 2 True True True True =
     Inr \<lparr>dict_size = 2, num_pairs = 0,
        pairs = \<lparr>keys = [None, None], keys_ptr = Ptr_Live,
                 vals = [\<lparr>external_storage = 0, internal_storage = 0, field_type = FTGC_VARTYPE_VOID\<rparr>,
                         \<lparr>external_storage = 0, internal_storage = 0, field_type = FTGC_VARTYPE_VOID\<rparr>]\<rparr>,
        hash_index = \<lparr>table = [-1, -1], chain = [Hashlink (-1) None, Hashlink (-1) None],
                      table_size = 2, hash_mask = 1\<rparr>\<rparr>
   \<and> ftgc_dict_set_string
       \<lparr>dict_size = 2, num_pairs = 0,
        pairs = \<lparr>keys = [None, None], keys_ptr = Ptr_Live,
                 vals = [\<lparr>external_storage = 0, internal_storage = 0, field_type = FTGC_VARTYPE_VOID\<rparr>,
                         \<lparr>external_storage = 0, internal_storage = 0, field_type = FTGC_VARTYPE_VOID\<rparr>]\<rparr>,
        hash_index = \<lparr>table = [-1, -1], chain = [Hashlink (-1) None, Hashlink (-1) None],
                      table_size = 2, hash_mask = 1\<rparr>\<rparr>
       [100 \<mapsto> ''v1'', 300 \<mapsto> ''none''] ''a'' 100 Realloc_Moved True None True
     = Inr (1, \<lparr>dict_size = 2, num_pairs = 1,
        pairs = \<lparr>keys = [Some ''a'', None], keys_ptr = Ptr_Live,
                 vals = [\<lparr>external_storage = 0, internal_storage = 0, field_type = FTGC_VARTYPE_STRING\<rparr>,
                         \<lparr>external_storage = 0, internal_storage = 0, field_type = FTGC_VARTYPE_VOID\<rparr>]\<rparr>,
        hash_index = \<lparr>table = [-1, 0], chain = [Hashlink (-1) None, Hashlink (-1) None],
                      table_size = 2, hash_mask = 1\<rparr>\<rparr>,
        [100 \<mapsto> ''v1'', 300 \<mapsto> ''none''])
   \<and> ftgc_dict_get_string
       \<lparr>dict_size = 2, num_pairs = 1,
        pairs = \<lparr>keys = [Some ''a'', None], keys_ptr = Ptr_Live,
                 vals = [\<lparr>external_storage = 0, internal_storage = 0, field_type = FTGC_VARTYPE_STRING\<rparr>,
                         \<lparr>external_storage = 0, internal_storage = 0, field_type = FTGC_VARTYPE_VOID\<rparr>]\<rparr>,
        hash_index = \<lparr>table = [-1, 0], chain = [Hashlink (-1) None, Hashlink (-1) None],
                      table_size = 2, hash_mask = 1\<rparr>\<rparr>
       ''a'' 300 = Inr NULL"
  by (simp add: init_dict_2 dict_eval hi_eval variant_eval)

subsection \<open>Dictionary: what holds when the arrays can grow\<close>

text \<open>
  Let the dictionary be as between calls, let \<open>key\<close> be a non-empty C string, let
  \<open>value\<close> point to the string \<open>s\<close>, and let the reallocations succeed if the call makes
  them. Then \<open>ftgc_dict_set_string\<close> returns and leaves the dictionary as between calls, and
  \<^item> for a key of at most \<open>FTGC_DICT_KEY_BYTES - 1 = 8\<close> characters,
    \<open>ftgc_dict_get_string\<close> with the same key returns the copy, which holds \<open>s\<close>, when the
    copy was allocated, and \<open>NULL\<close> when it was not;
  \<^item> for a longer key, \<open>ftgc_dict_get_string\<close> with the same key returns the fallback, and
    the call has taken one more slot, so that setting the same key again takes another.
\<close>

lemma set_string_get_string:
  assumes inv: "dict_inv ctx" and key: "c_string key" "key \<noteq> []"
    and val: "mem value = Some s"
    and owned: "\<forall>v \<in> set (vals (pairs ctx)).
        field_type v = FTGC_VARTYPE_STRING \<and> internal_storage v \<noteq> NULL \<longrightarrow>
          mem (internal_storage v) \<noteq> None \<and> internal_storage v \<noteq> value"
    and grow: "growth_needed ctx key \<longrightarrow> ka \<noteq> Realloc_NULL \<and> vo"
  shows "\<exists>r ctx' mem'.
      ftgc_dict_set_string ctx mem key value ka vo answer node_ok = Inr (r, ctx', mem')
    \<and> dict_inv ctx'
    \<and> (length key < FTGC_DICT_KEY_BYTES \<and> copy_allocated ctx mem key answer \<longrightarrow>
          (\<exists>a. answer = Some a \<and> ftgc_dict_get_string ctx' key fallback = Inr a \<and>
                mem' a = Some s))
    \<and> (length key < FTGC_DICT_KEY_BYTES \<and> \<not> copy_allocated ctx mem key answer \<longrightarrow>
          ftgc_dict_get_string ctx' key fallback = Inr NULL)
    \<and> (FTGC_DICT_KEY_BYTES \<le> length key \<longrightarrow>
          ftgc_dict_get_string ctx' key fallback = Inr fallback \<and>
          num_pairs ctx' = num_pairs ctx + 1)"
proof -
  from val have "mem value \<noteq> None" by simp
  from set_string_outcome [OF inv this owned, of key ka vo answer node_ok]
  obtain r ctx' mem' where
    set: "ftgc_dict_set_string ctx mem key value ka vo answer node_ok = Inr (r, ctx', mem')"
    by blast
  from grow have g: "ftgc__dict_find_index_for_key ctx key = Inr FTGC_HASHINDEX_UNUSED \<and>
               num_pairs ctx = dict_size ctx \<longrightarrow> ka \<noteq> Realloc_NULL \<and> vo"
    by (simp add: growth_needed_def)
  from set_string_then_get(1) [OF inv key g set]
    set_string_then_get(2-4) [OF inv key g set, of fallback] val set
  show ?thesis by auto
qed

end
